theory Spec2Isabelle
  imports Main "HOL-Library.Word"
begin

unbundle bit_operations_syntax

section \<open>Machine types and the C library\<close>

type_synonym u32 = "32 word"
type_synonym u16 = "16 word"

text \<open>
  \<open>strtol(nptr, &end_ptr, 10)\<close> of the C library, for a platform whose \<open>long\<close> has
  64 bits: leading white space is skipped, one sign is read, then the longest run of decimal
  digits. With no digit the value is 0 and \<open>end_ptr\<close> is \<open>nptr\<close> itself; a value out of
  range is clamped to \<open>LONG_MIN\<close> or \<open>LONG_MAX\<close>. A C string is a \<open>string\<close> here, and
  the terminating NUL is what \<open>first_char\<close> reads at its end.
\<close>

definition isspace_c :: "char \<Rightarrow> bool" where
  "isspace_c c = (c = CHR '' '' \<or> c = CHR 0x09 \<or> c = CHR 0x0A \<or> c = CHR 0x0B
                  \<or> c = CHR 0x0C \<or> c = CHR 0x0D)"

definition isdigit_c :: "char \<Rightarrow> bool" where
  "isdigit_c c = (48 \<le> (of_char c :: nat) \<and> (of_char c :: nat) \<le> 57)"

definition digit_val :: "char \<Rightarrow> nat" where
  "digit_val c = of_char c - 48"

fun read_digits :: "nat \<Rightarrow> string \<Rightarrow> nat \<times> string" where
  "read_digits acc [] = (acc, [])"
| "read_digits acc (c # cs) =
     (if isdigit_c c then read_digits (acc * 10 + digit_val c) cs else (acc, c # cs))"

definition LONG_MAX :: int where
  "LONG_MAX = 2 ^ 63 - 1"

definition LONG_MIN :: int where
  "LONG_MIN = - (2 ^ 63)"

definition read_sign :: "string \<Rightarrow> bool \<times> string" where
  "read_sign s =
     (case s of
        [] \<Rightarrow> (False, s)
      | c # cs \<Rightarrow>
          if c = CHR ''-'' then (True, cs)
          else if c = CHR ''+'' then (False, cs)
          else (False, s))"

definition strtol :: "string \<Rightarrow> int \<times> string" where
  "strtol nptr =
     (let (neg, s) = read_sign (dropWhile isspace_c nptr) in
      case s of
        [] \<Rightarrow> (0, nptr)
      | c # cs \<Rightarrow>
          if \<not> isdigit_c c then (0, nptr)
          else
            (let (n, end_ptr) = read_digits 0 s;
                 v = (if neg then - int n else int n)
             in (max LONG_MIN (min LONG_MAX v), end_ptr)))"

definition first_char :: "string \<Rightarrow> char" where
  "first_char s = (case s of [] \<Rightarrow> CHR 0x00 | c # cs \<Rightarrow> c)"

text \<open>
  The conversions between times, \<open>double\<close> and \<open>int\<close>, for the same platform (\<open>time_t\<close>
  is a \<open>long\<close>). \<open>difftime\<close> returns the difference of two times as a \<open>double\<close>; the
  difference of two integers is an integer, and a \<open>double\<close> holds it exactly when it is
  below \<open>2\<^sup>5\<^sup>3\<close> in magnitude. A \<open>double\<close> assigned to an \<open>int\<close> keeps its value when an
  \<open>int\<close> can hold it; otherwise C leaves the result undefined, and the conversion
  instruction of the platform gives \<open>INT_MIN\<close>; likewise for the cast \<open>(time_t)\<close> of a
  \<open>double\<close>, with \<open>LONG_MIN\<close>. A difference of \<open>2\<^sup>5\<^sup>3\<close> or more is out of
  the range of \<open>int\<close> before and after it is rounded to a \<open>double\<close>, so \<open>double_to_int\<close>
  of \<open>difftime\<close> is the \<open>int\<close> of the code for all times. The cast \<open>(int)\<close> of a
  \<open>time_t\<close> keeps its low 32 bits.
\<close>

definition INT_MAX :: int where
  "INT_MAX = 2 ^ 31 - 1"

definition INT_MIN :: int where
  "INT_MIN = - (2 ^ 31)"

definition difftime :: "int \<Rightarrow> int \<Rightarrow> int" where
  "difftime time1 time0 = time1 - time0"

definition double_to_int :: "int \<Rightarrow> int" where
  "double_to_int d = (if INT_MIN \<le> d \<and> d \<le> INT_MAX then d else INT_MIN)"

definition double_to_time :: "int \<Rightarrow> int" where
  "double_to_time d = (if LONG_MIN \<le> d \<and> d \<le> LONG_MAX then d else LONG_MIN)"

definition time_to_int :: "int \<Rightarrow> int" where
  "time_to_int t = sint (word_of_int t :: u32)"

text \<open>The number a string of decimal digits denotes.\<close>

definition decimal :: "string \<Rightarrow> nat" where
  "decimal ds = foldl (\<lambda>n c. n * 10 + digit_val c) 0 ds"

section \<open>Size strings of the burst buffer configuration\<close>

text \<open>
  \<open>_atoi\<close>: the \<open>long\<close> of \<open>strtol\<close> is stored in an \<open>int32_t\<close> (its low 32 bits),
  tested for \<open>> 0\<close> as a signed value, and multiplied as a \<open>uint32_t\<close>.
\<close>

definition bb_atoi :: "string \<Rightarrow> u32" where
  "bb_atoi tok =
     (let (l, end_ptr) = strtol tok;
          size_i = (word_of_int l :: u32)
      in if 0 < sint size_i then
           (let size_u = size_i; c = first_char end_ptr in
            if c = CHR ''k'' \<or> c = CHR ''K'' then size_u * 1024
            else if c = CHR ''m'' \<or> c = CHR ''M'' then size_u * 1024 * 1024
            else if c = CHR ''g'' \<or> c = CHR ''G'' then size_u * 1024 * 1024 * 1024
            else size_u)
         else 0)"

text \<open>
  \<open>bb_get_size_num\<close>, in two parts: the value of \<open>bb_size_u\<close> when the suffix has been
  applied, and the rounding to the granularity.
\<close>

definition bb_size_suffixed :: "string \<Rightarrow> u32" where
  "bb_size_suffixed tok =
     (let (l, end_ptr) = strtol tok;
          bb_size_i = (word_of_int l :: u32)
      in if 0 < sint bb_size_i then
           (let bb_size_u = bb_size_i; c = first_char end_ptr in
            if c = CHR ''m'' \<or> c = CHR ''M'' then (bb_size_u + 1023) div 1024
            else if c = CHR ''g'' \<or> c = CHR ''G'' then bb_size_u
            else if c = CHR ''t'' \<or> c = CHR ''T'' then bb_size_u * 1024
            else if c = CHR ''p'' \<or> c = CHR ''P'' then bb_size_u * (1024 * 1024)
            else bb_size_u)
         else 0)"

definition bb_round_granularity :: "u32 \<Rightarrow> u32 \<Rightarrow> u32" where
  "bb_round_granularity bb_size_u granularity =
     (if 1 < granularity
      then ((bb_size_u + granularity - 1) div granularity) * granularity
      else bb_size_u)"

definition bb_get_size_num :: "string \<Rightarrow> u32 \<Rightarrow> u32" where
  "bb_get_size_num tok granularity = bb_round_granularity (bb_size_suffixed tok) granularity"

section \<open>Burst buffer configuration\<close>

text \<open>
  Pointers are options: \<open>None\<close> is \<open>NULL\<close>, and \<open>xfree\<close> leaves \<open>NULL\<close> behind.
  \<open>NO_VAL\<close> comes from a header that is not part of the sources; the functions take it
  as a parameter.
\<close>

record burst_buffer_gres_t =
  gres_name :: "string option"
  avail_cnt :: u32
  used_cnt :: u32

record bb_config_t =
  allow_users :: "u32 list option"
  allow_users_str :: "string option"
  debug_flag :: bool
  deny_users :: "u32 list option"
  deny_users_str :: "string option"
  get_sys_state :: "string option"
  granularity :: u32
  gres_cnt :: u32
  gres_ptr :: "burst_buffer_gres_t list option"
  job_size_limit :: u32
  stage_in_timeout :: u32
  stage_out_timeout :: u32
  prio_boost_alloc :: u32
  prio_boost_use :: u32
  private_data :: u16
  start_stage_in :: "string option"
  start_stage_out :: "string option"
  stop_stage_in :: "string option"
  stop_stage_out :: "string option"
  user_size_limit :: u32

text \<open>
  The two loops of \<open>bb_clear_config\<close> over \<open>gres_ptr[0 .. gres_cnt - 1]\<close>. They return
  \<open>None\<close> when \<open>gres_cnt\<close> is positive and the array is \<open>NULL\<close> or shorter than
  \<open>gres_cnt\<close>: the C code then writes through an invalid pointer.
\<close>

definition gres_clear_avail :: "u32 \<Rightarrow> burst_buffer_gres_t list option \<Rightarrow> burst_buffer_gres_t list option option" where
  "gres_clear_avail cnt ptr =
     (if cnt = 0 then Some ptr
      else case ptr of
        None \<Rightarrow> None
      | Some gs \<Rightarrow>
          if length gs < unat cnt then None
          else Some (Some (map (\<lambda>g. g\<lparr>avail_cnt := 0\<rparr>) (take (unat cnt) gs) @ drop (unat cnt) gs)))"

definition gres_free_names :: "u32 \<Rightarrow> burst_buffer_gres_t list option \<Rightarrow> burst_buffer_gres_t list option option" where
  "gres_free_names cnt ptr =
     (if cnt = 0 then Some ptr
      else case ptr of
        None \<Rightarrow> None
      | Some gs \<Rightarrow>
          if length gs < unat cnt then None
          else Some (Some (map (\<lambda>g. g\<lparr>gres_name := None\<rparr>) (take (unat cnt) gs) @ drop (unat cnt) gs)))"

definition bb_clear_config :: "u32 \<Rightarrow> bb_config_t option \<Rightarrow> bool \<Rightarrow> bb_config_t option" where
  "bb_clear_config NO_VAL config_ptr fini =
     (case config_ptr of
        None \<Rightarrow> None
      | Some c0 \<Rightarrow>
          (let c1 = c0\<lparr>allow_users := None, allow_users_str := None, debug_flag := False,
                         deny_users := None, deny_users_str := None, get_sys_state := None,
                         granularity := 1\<rparr>;
               c2 = (if fini then
                       (case gres_free_names (gres_cnt c1) (gres_ptr c1) of
                          None \<Rightarrow> None
                        | Some freed \<Rightarrow> Some (c1\<lparr>gres_ptr := None, gres_cnt := 0\<rparr>))
                     else
                       (case gres_clear_avail (gres_cnt c1) (gres_ptr c1) of
                          None \<Rightarrow> None
                        | Some cleared \<Rightarrow> Some (c1\<lparr>gres_ptr := cleared\<rparr>)))
           in case c2 of
                None \<Rightarrow> None
              | Some c \<Rightarrow>
                  Some (c\<lparr>job_size_limit := NO_VAL, stage_in_timeout := 0, stage_out_timeout := 0,
                           prio_boost_alloc := 0, prio_boost_use := 0,
                           start_stage_in := None, start_stage_out := None,
                           stop_stage_in := None, stop_stage_out := None,
                           user_size_limit := NO_VAL\<rparr>)))"

section \<open>Burst buffer bookkeeping\<close>

datatype bb_state_enum =
  BB_STATE_ALLOCATED | BB_STATE_STAGING_IN | BB_STATE_STAGED_IN
| BB_STATE_STAGING_OUT | BB_STATE_STAGED_OUT

record bb_alloc_t =
  a_array_job_id :: u32
  a_array_task_id :: u32
  a_end_time :: int
  a_gres_cnt :: u32
  a_gres_ptr :: "burst_buffer_gres_t list option"
  a_job_id :: u32
  a_name :: "string option"
  a_seen_time :: int
  a_size :: u32
  a_state :: bb_state_enum
  a_state_time :: int
  a_use_time :: int
  a_user_id :: u32

record bb_user_t =
  u_size :: u32
  u_user_id :: u32

record job_details_t =
  nice :: u16

record job_record_t =
  j_array_job_id :: u32
  j_array_task_id :: u32
  j_details :: "job_details_t option"
  j_job_id :: u32
  j_priority :: u32
  j_user_id :: u32

text \<open>
  A hash table is an array of \<open>BB_HASH_SIZE\<close> chains, each a list with its head first.
  \<open>BB_HASH_SIZE\<close> comes from a header that is not part of the sources: the functions take
  it as the parameter \<open>hsz\<close>, and only the buckets below \<open>hsz\<close> belong to the table.
\<close>

record bb_state_t =
  bb_config :: bb_config_t
  bb_hash :: "(nat \<Rightarrow> bb_alloc_t list) option"
  bb_uhash :: "(nat \<Rightarrow> bb_user_t list) option"
  next_end_time :: int
  total_space :: u32
  used_space :: u32

definition bb_alloc_cache :: "bb_state_t \<Rightarrow> bb_state_t" where
  "bb_alloc_cache state_ptr = state_ptr\<lparr>bb_hash := Some (\<lambda>i. []), bb_uhash := Some (\<lambda>i. [])\<rparr>"

text \<open>The scan of one chain in \<open>bb_find_user_rec\<close>: the position of the first record of the user.\<close>

fun user_chain_pos :: "u32 \<Rightarrow> bb_user_t list \<Rightarrow> nat option" where
  "user_chain_pos user_id [] = None"
| "user_chain_pos user_id (u # us) =
     (if u_user_id u = user_id then Some 0
      else map_option Suc (user_chain_pos user_id us))"

text \<open>
  \<open>bb_find_user_rec\<close> returns a pointer into the table; here the table (with the new record
  at the head of its chain when none was found), the bucket and the position in its chain.
\<close>

definition bb_find_user_rec ::
  "nat \<Rightarrow> u32 \<Rightarrow> (nat \<Rightarrow> bb_user_t list) option \<Rightarrow> ((nat \<Rightarrow> bb_user_t list) \<times> nat \<times> nat) option" where
  "bb_find_user_rec hsz user_id uhash =
     (case uhash of
        None \<Rightarrow> None
      | Some tab \<Rightarrow>
          (let inx = unat user_id mod hsz in
           case user_chain_pos user_id (tab inx) of
             Some pos \<Rightarrow> Some (tab, inx, pos)
           | None \<Rightarrow> Some (tab(inx := \<lparr>u_size = 0, u_user_id = user_id\<rparr> # tab inx), inx, 0)))"

definition bb_add_user_load :: "nat \<Rightarrow> bb_alloc_t \<Rightarrow> bb_state_t \<Rightarrow> bb_state_t option" where
  "bb_add_user_load hsz bb_ptr state_ptr =
     (let st = state_ptr\<lparr>used_space := used_space state_ptr + a_size bb_ptr\<rparr> in
      case bb_find_user_rec hsz (a_user_id bb_ptr) (bb_uhash st) of
        None \<Rightarrow> None
      | Some (tab, inx, pos) \<Rightarrow>
          (let user = tab inx ! pos in
           Some (st\<lparr>bb_uhash :=
             Some (tab(inx := (tab inx)[pos := user\<lparr>u_size := u_size user + a_size bb_ptr\<rparr>]))\<rparr>)))"

definition bb_remove_user_load :: "nat \<Rightarrow> bb_alloc_t \<Rightarrow> bb_state_t \<Rightarrow> bb_state_t option" where
  "bb_remove_user_load hsz bb_ptr state_ptr =
     (let st = (if a_size bb_ptr \<le> used_space state_ptr
                then state_ptr\<lparr>used_space := used_space state_ptr - a_size bb_ptr\<rparr>
                else state_ptr\<lparr>used_space := 0\<rparr>) in
      case bb_find_user_rec hsz (a_user_id bb_ptr) (bb_uhash st) of
        None \<Rightarrow> None
      | Some (tab, inx, pos) \<Rightarrow>
          (let user = tab inx ! pos;
               user' = (if a_size bb_ptr \<le> u_size user
                        then user\<lparr>u_size := u_size user - a_size bb_ptr\<rparr>
                        else user\<lparr>u_size := 0\<rparr>)
           in Some (st\<lparr>bb_uhash := Some (tab(inx := (tab inx)[pos := user']))\<rparr>)))"

text \<open>
  \<open>bb_alloc_job_rec\<close>: \<open>xmalloc\<close> clears the record, so the fields that are not assigned
  are zero. The two calls of \<open>time(NULL)\<close> are the parameters \<open>t_state\<close> and \<open>t_seen\<close>.
\<close>

definition new_job_rec :: "job_record_t \<Rightarrow> u32 \<Rightarrow> int \<Rightarrow> int \<Rightarrow> bb_alloc_t" where
  "new_job_rec job_ptr bb_size t_state t_seen =
     \<lparr>a_array_job_id = j_array_job_id job_ptr, a_array_task_id = j_array_task_id job_ptr,
      a_end_time = 0, a_gres_cnt = 0, a_gres_ptr = None, a_job_id = j_job_id job_ptr,
      a_name = None, a_seen_time = t_seen, a_size = bb_size, a_state = BB_STATE_ALLOCATED,
      a_state_time = t_state, a_use_time = 0, a_user_id = j_user_id job_ptr\<rparr>"

definition bb_alloc_job_rec ::
  "nat \<Rightarrow> bb_state_t \<Rightarrow> job_record_t option \<Rightarrow> u32 \<Rightarrow> int \<Rightarrow> int \<Rightarrow> (bb_state_t \<times> bb_alloc_t) option" where
  "bb_alloc_job_rec hsz state_ptr job_ptr bb_size t_state t_seen =
     (case (bb_hash state_ptr, job_ptr) of
        (Some tab, Some job) \<Rightarrow>
          (let bb_ptr = new_job_rec job bb_size t_state t_seen;
               i = unat (j_user_id job) mod hsz
           in Some (state_ptr\<lparr>bb_hash := Some (tab(i := bb_ptr # tab i))\<rparr>, bb_ptr))
      | _ \<Rightarrow> None)"

text \<open>
  The priority boost of \<open>bb_alloc_job\<close>: \<open>new_nice\<close> is a \<open>uint16_t\<close>, \<open>new_prio\<close> an
  \<open>int64_t\<close> stored back into the 32-bit priority. \<open>NICE_OFFSET\<close> comes from a header that
  is not part of the sources and is a parameter.
\<close>

definition boost_priority :: "u32 \<Rightarrow> u32 \<Rightarrow> job_record_t \<Rightarrow> job_record_t" where
  "boost_priority NICE_OFFSET boost job =
     (case j_details job of
        None \<Rightarrow> job
      | Some details \<Rightarrow>
          if boost = 0 then job
          else
            (let new_nice = (ucast (NICE_OFFSET - boost) :: u16) in
             if new_nice < nice details then
               (let new_prio = uint (j_priority job) + uint (nice details) - uint new_nice in
                job\<lparr>j_priority := word_of_int new_prio,
                    j_details := Some (details\<lparr>nice := new_nice\<rparr>)\<rparr>)
             else job))"

definition bb_alloc_job ::
  "nat \<Rightarrow> u32 \<Rightarrow> bb_state_t \<Rightarrow> job_record_t option \<Rightarrow> u32 \<Rightarrow> int \<Rightarrow> int
     \<Rightarrow> (bb_state_t \<times> job_record_t option \<times> bb_alloc_t) option" where
  "bb_alloc_job hsz NICE_OFFSET state_ptr job_ptr bb_size t_state t_seen =
     (let job' = map_option (boost_priority NICE_OFFSET (prio_boost_use (bb_config state_ptr))) job_ptr in
      case bb_alloc_job_rec hsz state_ptr job' bb_size t_state t_seen of
        None \<Rightarrow> None
      | Some (st, bb_ptr) \<Rightarrow>
          (case bb_add_user_load hsz bb_ptr st of
             None \<Rightarrow> None
           | Some st' \<Rightarrow> Some (st', job', bb_ptr)))"

text \<open>
  Sequences of calls. \<open>Alloc_job\<close> is a call of \<open>bb_alloc_job\<close>, \<open>Remove_load\<close> a call of
  \<open>bb_remove_user_load\<close> on the record given. \<open>charged\<close> follows the records whose size has
  been added and not yet removed: it is \<open>None\<close> when a record is removed that is not
  charged, or when the sizes charged would no longer fit in 32 bits.
\<close>

datatype bb_call =
  Alloc_job job_record_t u32 int int
| Remove_load bb_alloc_t

definition bb_call_exec :: "nat \<Rightarrow> u32 \<Rightarrow> bb_call \<Rightarrow> bb_state_t \<Rightarrow> bb_state_t option" where
  "bb_call_exec hsz NICE_OFFSET c st =
     (case c of
        Alloc_job job bb_size t_state t_seen \<Rightarrow>
          map_option fst (bb_alloc_job hsz NICE_OFFSET st (Some job) bb_size t_state t_seen)
      | Remove_load bb_ptr \<Rightarrow> bb_remove_user_load hsz bb_ptr st)"

fun bb_calls_exec :: "nat \<Rightarrow> u32 \<Rightarrow> bb_call list \<Rightarrow> bb_state_t \<Rightarrow> bb_state_t option" where
  "bb_calls_exec hsz NICE_OFFSET [] st = Some st"
| "bb_calls_exec hsz NICE_OFFSET (c # cs) st =
     (case bb_call_exec hsz NICE_OFFSET c st of
        None \<Rightarrow> None
      | Some st' \<Rightarrow> bb_calls_exec hsz NICE_OFFSET cs st')"

definition total_size :: "bb_alloc_t list \<Rightarrow> nat" where
  "total_size as = sum_list (map (\<lambda>a. unat (a_size a)) as)"

fun charged :: "bb_call list \<Rightarrow> bb_alloc_t list \<Rightarrow> bb_alloc_t list option" where
  "charged [] live = Some live"
| "charged (Alloc_job job bb_size t_state t_seen # cs) live =
     (let live' = new_job_rec job bb_size t_state t_seen # live in
      if total_size live' < 2 ^ 32 then charged cs live' else None)"
| "charged (Remove_load bb_ptr # cs) live =
     (if bb_ptr \<in> set live then charged cs (remove1 bb_ptr live) else None)"

text \<open>The records of a table, bucket by bucket.\<close>

definition all_users :: "nat \<Rightarrow> bb_state_t \<Rightarrow> bb_user_t list" where
  "all_users hsz st = (case bb_uhash st of None \<Rightarrow> [] | Some tab \<Rightarrow> concat (map tab [0..<hsz]))"

definition all_allocs :: "nat \<Rightarrow> bb_state_t \<Rightarrow> bb_alloc_t list" where
  "all_allocs hsz st = (case bb_hash st of None \<Rightarrow> [] | Some tab \<Rightarrow> concat (map tab [0..<hsz]))"

definition allocs_of :: "u32 \<Rightarrow> bb_alloc_t list \<Rightarrow> bb_alloc_t list" where
  "allocs_of user_id as = filter (\<lambda>a. a_user_id a = user_id) as"

definition users_total :: "nat \<Rightarrow> bb_state_t \<Rightarrow> nat" where
  "users_total hsz st = sum_list (map (\<lambda>u. unat (u_size u)) (all_users hsz st))"

text \<open>The size in the record of a user, 0 when the user has no record.\<close>

definition user_load :: "nat \<Rightarrow> bb_state_t \<Rightarrow> u32 \<Rightarrow> u32" where
  "user_load hsz st user_id =
     (case bb_uhash st of
        None \<Rightarrow> 0
      | Some tab \<Rightarrow>
          (case user_chain_pos user_id (tab (unat user_id mod hsz)) of
             None \<Rightarrow> 0
           | Some pos \<Rightarrow> u_size (tab (unat user_id mod hsz) ! pos)))"

definition is_alloc_call :: "bb_call \<Rightarrow> bool" where
  "is_alloc_call c = (case c of Alloc_job job bb_size t_state t_seen \<Rightarrow> True | Remove_load bb_ptr \<Rightarrow> False)"

text \<open>
  What \<open>bb_add_user_load\<close> and \<open>bb_remove_user_load\<close> do to the chain of the user, as one
  function for the proofs: the record of the user, found or put at the head with size 0, gets
  the size \<open>F\<close> of its size. \<open>chain_load\<close> is the size in the user's record in a chain.
\<close>

definition chain_upd :: "(u32 \<Rightarrow> u32) \<Rightarrow> u32 \<Rightarrow> bb_user_t list \<Rightarrow> bb_user_t list" where
  "chain_upd F user_id us =
     (case user_chain_pos user_id us of
        Some pos \<Rightarrow> us[pos := (us ! pos)\<lparr>u_size := F (u_size (us ! pos))\<rparr>]
      | None \<Rightarrow> \<lparr>u_size = F 0, u_user_id = user_id\<rparr> # us)"

definition chain_load :: "u32 \<Rightarrow> bb_user_t list \<Rightarrow> u32" where
  "chain_load user_id us =
     (case user_chain_pos user_id us of None \<Rightarrow> 0 | Some pos \<Rightarrow> u_size (us ! pos))"

text \<open>
  What the bookkeeping keeps true while the calls are the ones \<open>charged\<close> accepts: both
  tables are allocated, every user record is in the bucket of its user and is the only one
  of its user, its size is the total of the user's records in \<open>live\<close>, every user with a
  record in \<open>live\<close> has a user record, and \<open>used_space\<close> and the total of the user
  records are the total of \<open>live\<close>.
\<close>

definition bb_inv :: "nat \<Rightarrow> bb_state_t \<Rightarrow> bb_alloc_t list \<Rightarrow> bool" where
  "bb_inv hsz st live =
     (\<exists>ta tu. bb_hash st = Some ta \<and> bb_uhash st = Some tu
        \<and> (\<forall>b<hsz. \<forall>u\<in>set (tu b). unat (u_user_id u) mod hsz = b)
        \<and> (\<forall>b<hsz. distinct (map u_user_id (tu b)))
        \<and> (\<forall>b<hsz. \<forall>u\<in>set (tu b). unat (u_size u) = total_size (allocs_of (u_user_id u) live))
        \<and> (\<forall>a\<in>set live. a_user_id a \<in> u_user_id ` set (tu (unat (a_user_id a) mod hsz)))
        \<and> unat (used_space st) = total_size live
        \<and> users_total hsz st = total_size live
        \<and> total_size live < 2 ^ 32)"

section \<open>The script runner\<close>

text \<open>
  What the operating system answers is an input of \<open>run_script\<close>: the results of
  \<open>access\<close>, \<open>pipe\<close> and \<open>fork\<close>, the clock at the start, and for every turn of the
  read loop the clock, the result of \<open>poll\<close> and the result of \<open>read\<close>.
\<close>

datatype read_result =
  Read_eof
| Read_error bool
| Read_data string

record loop_turn =
  clock :: int
  poll_status :: int
  pollin :: bool
  read_res :: read_result

record script_os =
  access_rc :: int
  pipe_rc :: int
  fork_rc :: int
  start_time :: int
  turns :: "loop_turn list"

text \<open>
  The loop of the parent. Its state is \<open>resp_size\<close> and the bytes read so far
  (\<open>resp_offset\<close> is their number). \<open>Read_error eagain\<close> is a negative result of \<open>read\<close>
  with \<open>errno = EAGAIN\<close> or not; \<open>read\<close> returns at most \<open>resp_size - resp_offset\<close> bytes.
  The result is \<open>None\<close> when the turns given end and the loop has not ended.
\<close>

fun read_loop :: "int \<Rightarrow> int \<Rightarrow> nat \<Rightarrow> string \<Rightarrow> loop_turn list \<Rightarrow> (nat \<times> string) option" where
  "read_loop max_wait start resp_size resp [] = None"
| "read_loop max_wait start resp_size resp (t # ts) =
     (let new_wait = (if max_wait = - 1 then - 1 else clock t - start + max_wait) in
      if max_wait \<noteq> - 1 \<and> new_wait \<le> 0 then Some (resp_size, resp)
      else if poll_status t < 1 then Some (resp_size, resp)
      else if \<not> pollin t then Some (resp_size, resp)
      else
        (case read_res t of
           Read_eof \<Rightarrow> Some (resp_size, resp)
         | Read_error eagain \<Rightarrow>
             if eagain then read_loop max_wait start resp_size resp ts
             else Some (resp_size, resp)
         | Read_data d \<Rightarrow>
             (let got = take (resp_size - length resp) d in
              if got = [] then Some (resp_size, resp)
              else
                (let resp' = resp @ got in
                 if resp_size \<le> length resp' + 1024
                 then read_loop max_wait start (resp_size * 2) resp' ts
                 else read_loop max_wait start resp_size resp' ts))))"

datatype run_result =
  Returned "string option"
| Child_process
| Still_reading

definition run_script :: "script_os \<Rightarrow> string \<Rightarrow> string option \<Rightarrow> string list \<Rightarrow> int \<Rightarrow> run_result" where
  "run_script os script_type script_path script_argv max_wait =
     (case script_path of
        None \<Rightarrow> Returned None
      | Some path \<Rightarrow>
          if path = [] then Returned None
          else if hd path \<noteq> CHR ''/'' then Returned None
          else if access_rc os < 0 then Returned None
          else if max_wait \<noteq> - 1 \<and> pipe_rc os \<noteq> 0 then Returned None
          else if fork_rc os = 0 then Child_process
          else if fork_rc os < 0 then Returned None
          else if max_wait \<noteq> - 1 then
            (case read_loop max_wait (start_time os) 1024 [] (turns os) of
               None \<Rightarrow> Still_reading
             | Some (resp_size, resp) \<Rightarrow> Returned (Some resp))
          else Returned None)"

section \<open>The agent\<close>

datatype state_t = DSH_NEW | DSH_ACTIVE | DSH_DONE | DSH_FAILED

datatype slurm_msg_type_t =
  REQUEST_REVOKE_JOB_CREDENTIAL
| REQUEST_NODE_REGISTRATION_STATUS
| REQUEST_PING
| RESPONSE_SLURM_RC
| OTHER_MSG nat

text \<open>
  \<open>thd_t\<close> without its thread handle and attributes; a socket address is a number.
  \<open>agent_arg_t\<close> is declared in a header that is not part of the sources: its fields are
  the ones \<open>agent\<close> reads, the name array as a list of names.
\<close>

record thd_t =
  state :: state_t
  time :: int
  slurm_addr :: nat
  node_name :: string

record agent_info_t =
  thread_count :: u32
  threads_active :: u32
  thread_struct :: "thd_t list"
  msg_type :: slurm_msg_type_t
  msg_args :: nat

record agent_arg_t =
  addr_count :: u32
  arg_slurm_addr :: "nat list option"
  arg_node_names :: "string list option"
  arg_msg_type :: slurm_msg_type_t
  arg_msg_args :: nat

datatype agent_start =
  Agent_fatal string
| Agent_cleanup
| Agent_started agent_info_t

text \<open>
  \<open>agent\<close> up to the start of the threads: the argument tests and the initialisation.
  \<open>Agent_cleanup\<close> is the jump to \<open>cleanup\<close>, before any thread is created.
\<close>

definition agent_init :: "agent_arg_t \<Rightarrow> nat list \<Rightarrow> string list \<Rightarrow> agent_info_t" where
  "agent_init a addrs names =
     \<lparr>thread_count = addr_count a, threads_active = 0,
      thread_struct = map (\<lambda>i. \<lparr>state = DSH_NEW, time = 0, slurm_addr = addrs ! i, node_name = names ! i\<rparr>)
                          [0..<unat (addr_count a)],
      msg_type = arg_msg_type a, msg_args = arg_msg_args a\<rparr>"

definition agent :: "agent_arg_t option \<Rightarrow> agent_start" where
  "agent args =
     (case args of
        None \<Rightarrow> Agent_fatal ''agent NULL argument''
      | Some a \<Rightarrow>
          if addr_count a = 0 then Agent_cleanup
          else
            (case arg_slurm_addr a of
               None \<Rightarrow> Agent_fatal ''agent passed NULL address list''
             | Some addrs \<Rightarrow>
                 (case arg_node_names a of
                    None \<Rightarrow> Agent_fatal ''agent passed NULL node name list''
                  | Some names \<Rightarrow>
                      if arg_msg_type a \<noteq> REQUEST_REVOKE_JOB_CREDENTIAL
                         \<and> arg_msg_type a \<noteq> REQUEST_NODE_REGISTRATION_STATUS
                         \<and> arg_msg_type a \<noteq> REQUEST_PING
                      then Agent_fatal ''agent passed invalid message type''
                      else Agent_started (agent_init a addrs names))))"

definition is_fatal :: "agent_start \<Rightarrow> bool" where
  "is_fatal r = (case r of Agent_fatal m \<Rightarrow> True | _ \<Rightarrow> False)"

subsection \<open>The worker\<close>

text \<open>
  What the network answers to one worker: the results of the four calls and the reply.
  \<open>SLURM_SOCKET_ERROR\<close> comes from a header that is not part of the sources and is the
  parameter \<open>sock_err\<close>.
\<close>

record rpc_answers =
  open_rc :: int
  send_rc :: int
  receive_rc :: int
  shutdown_rc :: int
  response_type :: slurm_msg_type_t
  return_code :: int

definition rpc_thread_state :: "int \<Rightarrow> rpc_answers \<Rightarrow> state_t" where
  "rpc_thread_state sock_err r =
     (if open_rc r = sock_err then DSH_FAILED
      else if send_rc r = sock_err then DSH_FAILED
      else if receive_rc r = sock_err then DSH_FAILED
      else if shutdown_rc r = sock_err then DSH_FAILED
      else if receive_rc r \<noteq> 0 then DSH_FAILED
      else
        (case response_type r of
           RESPONSE_SLURM_RC \<Rightarrow> if return_code r \<noteq> 0 then DSH_FAILED else DSH_DONE
         | _ \<Rightarrow> DSH_FAILED))"

text \<open>
  The two critical sections of \<open>thread_per_node_rpc\<close> on the record \<open>i\<close> of the array:
  at the start, and at \<open>cleanup\<close>.
\<close>

definition worker_start :: "nat \<Rightarrow> int \<Rightarrow> agent_info_t \<Rightarrow> agent_info_t" where
  "worker_start i now a =
     a\<lparr>thread_struct := (thread_struct a)[i := (thread_struct a ! i)\<lparr>state := DSH_ACTIVE, time := now\<rparr>]\<rparr>"

definition worker_finish :: "nat \<Rightarrow> int \<Rightarrow> state_t \<Rightarrow> agent_info_t \<Rightarrow> agent_info_t" where
  "worker_finish i now thread_state a =
     a\<lparr>thread_struct := (thread_struct a)[i := (thread_struct a ! i)
          \<lparr>state := thread_state,
           time := double_to_time (difftime now (time (thread_struct a ! i)))\<rparr>],
       threads_active := threads_active a - 1\<rparr>"

datatype worker_fatal = Sigprocmask_error | Null_argument

text \<open>
  One worker run without interruption by another thread: \<open>t0\<close> and \<open>t1\<close> are the clock
  at the start and at \<open>cleanup\<close>.
\<close>

definition thread_per_node_rpc ::
  "int \<Rightarrow> int \<Rightarrow> nat option \<Rightarrow> rpc_answers \<Rightarrow> int \<Rightarrow> int \<Rightarrow> agent_info_t \<Rightarrow> worker_fatal + agent_info_t" where
  "thread_per_node_rpc sock_err sigprocmask_rc args r t0 t1 a =
     (if sigprocmask_rc \<noteq> 0 then Inl Sigprocmask_error
      else case args of
        None \<Rightarrow> Inl Null_argument
      | Some i \<Rightarrow> Inr (worker_finish i t1 (rpc_thread_state sock_err r) (worker_start i t0 a)))"

subsection \<open>The watchdog\<close>

record wdog_scan =
  work_done :: bool
  fail_cnt :: nat
  max_delay :: int
  signalled :: "nat list"
  records :: "thd_t list"

text \<open>
  One pass of the watchdog over the array, from record \<open>i\<close> on. \<open>COMMAND_TIMEOUT\<close> comes
  from a header that is not part of the sources and is a parameter. \<open>signalled\<close> lists the
  records whose thread was sent \<open>SIGALRM\<close>, and \<open>records\<close> is the array as the pass leaves
  it, record by record. The pass reads the clock for each active record; it runs with the
  mutex held, and \<open>now\<close> is the second the clock shows throughout. \<open>delay\<close> and
  \<open>max_delay\<close> are \<open>int\<close> variables of the code.
\<close>

fun wdog_pass :: "int \<Rightarrow> int \<Rightarrow> nat \<Rightarrow> thd_t list \<Rightarrow> wdog_scan \<Rightarrow> wdog_scan" where
  "wdog_pass COMMAND_TIMEOUT now i [] w = w"
| "wdog_pass COMMAND_TIMEOUT now i (t # ts) w =
     wdog_pass COMMAND_TIMEOUT now (Suc i) ts
       ((case state t of
           DSH_ACTIVE \<Rightarrow>
             (let delay = double_to_int (difftime now (time t)) in
              if COMMAND_TIMEOUT \<le> delay
              then w\<lparr>work_done := False, signalled := signalled w @ [i]\<rparr>
              else w\<lparr>work_done := False\<rparr>)
         | DSH_NEW \<Rightarrow> w\<lparr>work_done := False\<rparr>
         | DSH_DONE \<Rightarrow>
             if max_delay w < time_to_int (time t) then w\<lparr>max_delay := time_to_int (time t)\<rparr>
             else w
         | DSH_FAILED \<Rightarrow> w\<lparr>fail_cnt := Suc (fail_cnt w)\<rparr>)
        \<lparr>records := records w @ [t]\<rparr>)"

definition wdog_poll :: "int \<Rightarrow> int \<Rightarrow> thd_t list \<Rightarrow> int \<Rightarrow> wdog_scan" where
  "wdog_poll COMMAND_TIMEOUT now ts max_delay0 =
     wdog_pass COMMAND_TIMEOUT now 0 ts
       \<lparr>work_done = True, fail_cnt = 0, max_delay = max_delay0, signalled = [], records = []\<rparr>"

text \<open>
  The poll loop. Between two polls the workers change the array, so each poll comes with the
  clock and the array as it stands then. The result is \<open>None\<close> when the polls given end
  and the loop has not ended; otherwise the last scan, whose \<open>records\<close> are the array the
  watchdog goes on with.
\<close>

fun wdog_loop ::
  "int \<Rightarrow> (int \<times> thd_t list) list \<Rightarrow> int \<Rightarrow> wdog_scan option" where
  "wdog_loop COMMAND_TIMEOUT [] max_delay0 = None"
| "wdog_loop COMMAND_TIMEOUT ((now, ts) # polls) max_delay0 =
     (let w = wdog_poll COMMAND_TIMEOUT now ts max_delay0 in
      if work_done w then Some w
      else wdog_loop COMMAND_TIMEOUT polls (max_delay w))"

datatype lock_level_t = NO_LOCK | READ_LOCK | WRITE_LOCK

record slurmctld_lock_t =
  config_lock :: lock_level_t
  job_lock :: lock_level_t
  node_lock :: lock_level_t
  partition_lock :: lock_level_t

definition node_write_lock :: slurmctld_lock_t where
  "node_write_lock =
     \<lparr>config_lock = NO_LOCK, job_lock = WRITE_LOCK, node_lock = WRITE_LOCK, partition_lock = NO_LOCK\<rparr>"

datatype wdog_event =
  Lock_slurmctld slurmctld_lock_t
| Unlock_slurmctld slurmctld_lock_t
| Node_not_resp string
| Node_did_resp string
| Debug_max_delay int
| Mutex_unlock

definition names_in :: "state_t \<Rightarrow> thd_t list \<Rightarrow> string list" where
  "names_in s ts = map node_name (filter (\<lambda>t. state t = s) ts)"

text \<open>
  What the watchdog does when the poll loop has ended, with \<open>AGENT_IS_THREAD\<close> set: the
  calls it makes, in order. Without \<open>AGENT_IS_THREAD\<close> the code ends in \<open>fatal\<close>.
\<close>

definition wdog_notify :: "bool \<Rightarrow> wdog_scan \<Rightarrow> wdog_event list option" where
  "wdog_notify AGENT_IS_THREAD w =
     (let ts = records w in
      if \<not> AGENT_IS_THREAD then None
      else Some
        ((if fail_cnt w \<noteq> 0
          then [Lock_slurmctld node_write_lock] @ map Node_not_resp (names_in DSH_FAILED ts)
               @ [Unlock_slurmctld node_write_lock]
          else [])
         @ [Lock_slurmctld node_write_lock] @ map Node_did_resp (names_in DSH_DONE ts)
         @ [Unlock_slurmctld node_write_lock]
         @ (if max_delay w \<noteq> 0 then [Debug_max_delay (max_delay w)] else [])
         @ [Mutex_unlock]))"

definition wdog ::
  "bool \<Rightarrow> int \<Rightarrow> (int \<times> thd_t list) list \<Rightarrow> (thd_t list \<times> wdog_event list) option" where
  "wdog AGENT_IS_THREAD COMMAND_TIMEOUT polls =
     (case wdog_loop COMMAND_TIMEOUT polls 0 of
        None \<Rightarrow> None
      | Some w \<Rightarrow>
          (case wdog_notify AGENT_IS_THREAD w of
             None \<Rightarrow> None
           | Some evs \<Rightarrow> Some (records w, evs)))"

text \<open>
  Whether every call of \<open>node_not_resp\<close> and \<open>node_did_resp\<close> in a sequence of events is
  made while a lock with the job and node write locks is held.
\<close>

fun calls_locked :: "bool \<Rightarrow> wdog_event list \<Rightarrow> bool" where
  "calls_locked held [] = True"
| "calls_locked held (Lock_slurmctld l # es) =
     calls_locked (job_lock l = WRITE_LOCK \<and> node_lock l = WRITE_LOCK) es"
| "calls_locked held (Unlock_slurmctld l # es) = calls_locked False es"
| "calls_locked held (Node_not_resp n # es) = (held \<and> calls_locked held es)"
| "calls_locked held (Node_did_resp n # es) = (held \<and> calls_locked held es)"
| "calls_locked held (e # es) = calls_locked held es"

definition is_node_call :: "wdog_event \<Rightarrow> bool" where
  "is_node_call e = (case e of Node_not_resp n \<Rightarrow> True | Node_did_resp n \<Rightarrow> True | _ \<Rightarrow> False)"

subsection \<open>The threads together\<close>

text \<open>
  Every access to the shared records is made with the agent's mutex held, so a run of the
  agent is a sequence of critical sections: the agent creates the thread of the next record
  and counts it (after its wait for \<open>threads_active < AGENT_THREAD_COUNT\<close>), a thread that
  was created marks its record active, an active thread stores its result and leaves. The
  pair is the shared data and \<open>i\<close>, the index of the agent's loop. \<open>AGENT_THREAD_COUNT\<close>
  comes from a header that is not part of the sources and is a parameter.
\<close>

inductive agent_run :: "u32 \<Rightarrow> agent_info_t \<times> nat \<Rightarrow> agent_info_t \<times> nat \<Rightarrow> bool"
  for AGENT_THREAD_COUNT :: u32 where
  run_init: "agent_run AGENT_THREAD_COUNT s s"
| run_create:
    "agent_run AGENT_THREAD_COUNT s (a, i) \<Longrightarrow> i < unat (thread_count a) \<Longrightarrow>
     threads_active a < AGENT_THREAD_COUNT \<Longrightarrow>
     agent_run AGENT_THREAD_COUNT s (a\<lparr>threads_active := threads_active a + 1\<rparr>, Suc i)"
| run_start:
    "agent_run AGENT_THREAD_COUNT s (a, i) \<Longrightarrow> k < i \<Longrightarrow> state (thread_struct a ! k) = DSH_NEW \<Longrightarrow>
     agent_run AGENT_THREAD_COUNT s (worker_start k now a, i)"
| run_finish:
    "agent_run AGENT_THREAD_COUNT s (a, i) \<Longrightarrow> k < i \<Longrightarrow> state (thread_struct a ! k) = DSH_ACTIVE \<Longrightarrow>
     agent_run AGENT_THREAD_COUNT s (worker_finish k now (rpc_thread_state sock_err r) a, i)"

definition in_progress :: "thd_t \<Rightarrow> bool" where
  "in_progress t = (state t = DSH_NEW \<or> state t = DSH_ACTIVE)"

text \<open>
  What holds between the critical sections: the records up to \<open>i\<close> are the ones whose
  thread was created, \<open>threads_active\<close> counts those of them that have not stored a
  result, and the records from \<open>i\<close> on are new.
\<close>

definition agent_inv :: "u32 \<Rightarrow> agent_info_t \<times> nat \<Rightarrow> bool" where
  "agent_inv AGENT_THREAD_COUNT s =
     (case s of (a, i) \<Rightarrow>
        i \<le> length (thread_struct a)
        \<and> length (thread_struct a) = unat (thread_count a)
        \<and> unat (threads_active a) = length (filter in_progress (take i (thread_struct a)))
        \<and> (\<forall>k. i \<le> k \<and> k < length (thread_struct a) \<longrightarrow> state (thread_struct a ! k) = DSH_NEW)
        \<and> threads_active a \<le> AGENT_THREAD_COUNT)"

chapter \<open>Properties\<close>

section \<open>Properties of the size strings\<close>

lemmas size_eval =
  bb_get_size_num_def bb_round_granularity_def bb_size_suffixed_def bb_atoi_def strtol_def
  read_sign_def isspace_c_def isdigit_c_def digit_val_def first_char_def LONG_MAX_def LONG_MIN_def

lemma sint_u32_lt: "sint (w::u32) < 2 ^ 31"
  using sint_lt[of w] by simp

lemma sint_pos_uint: "0 < sint (w::u32) \<Longrightarrow> uint w = sint w"
proof -
  assume p: "0 < sint w"
  have "(2::int) ^ 31 < 2 ^ 32" by simp
  then have "sint w < 2 ^ 32" using sint_u32_lt[of w] by linarith
  then have "take_bit 32 (sint w) = sint w"
    using p by (simp add: take_bit_int_eq_self)
  then show ?thesis using uint_sint[of w] by simp
qed

lemma sint_pos_unat: "0 < sint (w::u32) \<Longrightarrow> unat w = nat (sint w)"
  using sint_pos_uint[of w] by (simp add: unat_eq_nat_uint)

lemma unat_pos_bound: "0 < sint (w::u32) \<Longrightarrow> unat w < 2 ^ 31"
  using sint_pos_unat[of w] sint_u32_lt[of w] by simp

lemma unat_mib: "unat (w::u32) < 2 ^ 31 \<Longrightarrow> unat ((w + 1023) div 1024) = (unat w + 1023) div 1024"
  by (simp add: unat_div unat_word_ariths)

lemma unat_round:
  fixes s g :: u32
  assumes g: "1 < g" and fit: "unat s + unat g - 1 < 2 ^ 32"
  shows "unat (((s + g - 1) div g) * g) = ((unat s + unat g - 1) div unat g) * unat g"
proof -
  have g1: "1 \<le> unat g" using g by (simp add: word_less_nat_alt)
  have gm: "unat (g - 1) = unat g - 1" using g1 by (simp add: unat_sub word_le_nat_alt)
  have eq: "s + g - 1 = s + (g - 1)" by simp
  have "unat s + unat (g - 1) < 2 ^ LENGTH(32)" using gm fit g1 by simp
  then have "unat (s + (g - 1)) = unat s + unat (g - 1)"
    by (rule unat_add_lem[THEN iffD1])
  then have "unat (s + (g - 1)) = unat s + unat g - 1"
    using gm g1 by linarith
  then have num: "unat (s + g - 1) = unat s + unat g - 1"
    by (simp only: eq)
  have q: "unat ((s + g - 1) div g) = (unat s + unat g - 1) div unat g"
    by (simp add: unat_div num)
  have "(unat s + unat g - 1) div unat g * unat g \<le> unat s + unat g - 1"
    by simp
  then have small: "(unat s + unat g - 1) div unat g * unat g < 2 ^ 32"
    using fit by linarith
  have "unat (((s + g - 1) div g) * g) = unat ((s + g - 1) div g) * unat g mod 2 ^ LENGTH(32)"
    by (rule unat_word_ariths(2))
  also have "\<dots> = ((unat s + unat g - 1) div unat g) * unat g mod 2 ^ LENGTH(32)"
    by (simp only: q)
  also have "\<dots> = ((unat s + unat g - 1) div unat g) * unat g"
    using small by simp
  finally show ?thesis .
qed

lemma round_up_nat:
  fixes x g :: nat
  assumes "0 < g"
  shows "g dvd ((x + g - 1) div g) * g \<and> x \<le> ((x + g - 1) div g) * g \<and> ((x + g - 1) div g) * g < x + g"
proof -
  have e: "(x + g - 1) = ((x + g - 1) div g) * g + (x + g - 1) mod g" by simp
  have m: "(x + g - 1) mod g < g" using assms by simp
  have "x \<le> ((x + g - 1) div g) * g" using e m assms by linarith
  moreover have "((x + g - 1) div g) * g < x + g" using e assms by linarith
  ultimately show ?thesis by simp
qed

lemma bb_round_granularity_next_multiple:
  assumes "1 < gran" and "unat s + unat gran - 1 < 2 ^ 32"
  shows "unat gran dvd unat (bb_round_granularity s gran)
         \<and> unat s \<le> unat (bb_round_granularity s gran)
         \<and> unat (bb_round_granularity s gran) < unat s + unat gran"
proof -
  have g0: "0 < unat gran" using assms(1) by (simp add: word_less_nat_alt)
  have "unat (bb_round_granularity s gran)
        = ((unat s + unat gran - 1) div unat gran) * unat gran"
    using assms by (simp add: bb_round_granularity_def unat_round)
  then show ?thesis using round_up_nat[OF g0, of "unat s"] by simp
qed

lemma bb_size_suffixed_nonpos:
  assumes "strtol tok = (l, end_ptr)" and "sint (word_of_int l :: u32) \<le> 0"
  shows "bb_size_suffixed tok = 0"
  using assms by (simp add: bb_size_suffixed_def)

lemma bb_round_zero: "bb_round_granularity 0 gran = 0"
proof (cases "1 < gran")
  case True
  then have "unat (gran - 1) < unat gran"
    by (simp add: unat_sub word_le_nat_alt word_less_nat_alt)
  then have "gran - 1 < gran" by (simp add: word_less_nat_alt)
  then have "(gran - 1) div gran = 0"
    by (simp add: div_word_less)
  then show ?thesis by (simp add: bb_round_granularity_def)
next
  case False
  then show ?thesis by (simp add: bb_round_granularity_def)
qed

lemma bb_size_suffixed_pos:
  assumes "strtol tok = (l, end_ptr)" and "v = sint (word_of_int l :: u32)" and "0 < v"
    and "c = first_char end_ptr"
  shows "unat (bb_size_suffixed tok) =
          (if c = CHR ''m'' \<or> c = CHR ''M'' then (nat v + 1023) div 1024
           else if c = CHR ''g'' \<or> c = CHR ''G'' then nat v
           else if c = CHR ''t'' \<or> c = CHR ''T'' then (nat v * 1024) mod 2 ^ 32
           else if c = CHR ''p'' \<or> c = CHR ''P'' then (nat v * 1024 ^ 2) mod 2 ^ 32
           else nat v)"
proof -
  let ?w = "word_of_int l :: u32"
  have u: "unat ?w = nat v" using assms(2,3) sint_pos_unat[of ?w] by simp
  have b: "unat ?w < 2 ^ 31" using assms(2,3) unat_pos_bound[of ?w] by simp
  show ?thesis
    using assms(1,2,3,4) u unat_mib[OF b]
    by (simp add: bb_size_suffixed_def unat_word_ariths(2))
qed


lemma read_digits_append:
  assumes "\<forall>ch\<in>set ds. isdigit_c ch" and "\<not> isdigit_c (first_char sfx)"
  shows "read_digits acc (ds @ sfx) = (foldl (\<lambda>n c. n * 10 + digit_val c) acc ds, sfx)"
  using assms
proof (induction ds arbitrary: acc)
  case Nil
  then show ?case by (cases sfx) (simp_all add: first_char_def)
next
  case (Cons d ds)
  then show ?case by simp
qed

lemma strtol_decimal:
  assumes "ds \<noteq> []" and "\<forall>ch\<in>set ds. isdigit_c ch" and "\<not> isdigit_c (first_char sfx)"
  shows "strtol (ds @ sfx) = (min LONG_MAX (int (decimal ds)), sfx)"
proof -
  obtain d ds' where ds: "ds = d # ds'" using assms(1) by (cases ds) auto
  have dd: "isdigit_c d" using assms(2) ds by simp
  then have ns: "\<not> isspace_c d" and nm: "d \<noteq> CHR ''-''" and np: "d \<noteq> CHR ''+''"
    by (auto simp: isdigit_c_def isspace_c_def)
  have sign: "read_sign (dropWhile isspace_c (ds @ sfx)) = (False, ds @ sfx)"
    using ns nm np ds by (simp add: read_sign_def)
  have rd: "read_digits 0 (ds @ sfx) = (decimal ds, sfx)"
    using read_digits_append[OF assms(2,3)] by (simp add: decimal_def)
  have "LONG_MIN \<le> min LONG_MAX (int (decimal ds))"
    by (simp add: LONG_MIN_def LONG_MAX_def)
  then have cl: "max LONG_MIN (min LONG_MAX (int (decimal ds))) = min LONG_MAX (int (decimal ds))"
    by simp
  have "strtol (ds @ sfx) = (max LONG_MIN (min LONG_MAX (int (decimal ds))), sfx)"
    unfolding strtol_def sign using dd rd ds by simp
  then show ?thesis using cl by simp
qed

lemma sint_of_small_nat:
  assumes "v < 2 ^ 31"
  shows "sint (word_of_int (int v) :: u32) = int v"
proof -
  have a: "int v < 2 ^ 31" using assms by (metis of_nat_less_iff of_nat_numeral of_nat_power)
  have b: "- (2 ^ 31) \<le> int v" by simp
  have st: "signed_take_bit 31 (int v) = int v" using b a by (rule signed_take_bit_int_eq_self)
  have e: "sint (word_of_int (int v) :: u32) = signed_take_bit (LENGTH(32) - 1) (int v)"
    by (rule sint_sbintrunc')
  have l: "LENGTH(32) - 1 = (31 :: nat)" by simp
  show ?thesis by (simp only: e l st)
qed

lemma bb_size_suffixed_decimal:
  assumes "ds \<noteq> []" and "\<forall>ch\<in>set ds. isdigit_c ch" and "\<not> isdigit_c (first_char sfx)"
    and "0 < decimal ds" and "decimal ds < 2 ^ 31" and "c = first_char sfx"
  shows "unat (bb_size_suffixed (ds @ sfx)) =
          (if c = CHR ''m'' \<or> c = CHR ''M'' then (decimal ds + 1023) div 1024
           else if c = CHR ''g'' \<or> c = CHR ''G'' then decimal ds
           else if c = CHR ''t'' \<or> c = CHR ''T'' then (decimal ds * 1024) mod 2 ^ 32
           else if c = CHR ''p'' \<or> c = CHR ''P'' then (decimal ds * 1024 ^ 2) mod 2 ^ 32
           else decimal ds)"
proof -
  have "int (decimal ds) \<le> LONG_MAX" using assms(5) by (simp add: LONG_MAX_def)
  then have s: "strtol (ds @ sfx) = (int (decimal ds), sfx)"
    using strtol_decimal[OF assms(1,2,3)] by simp
  have v: "int (decimal ds) = sint (word_of_int (int (decimal ds)) :: u32)"
    using sint_of_small_nat[OF assms(5)] by simp
  have p: "0 < int (decimal ds)" using assms(4) by simp
  show ?thesis
    using bb_size_suffixed_pos[OF s v p assms(6)] by simp
qed

text \<open>
  The value of a size string is stated for every token by what \<open>strtol\<close> reads from it;
  \<open>strtol_decimal\<close> above says what that is for a token that starts with decimal digits,
  and \<open>bb_size_suffixed_decimal\<close> gives the size before rounding of such a token with a
  decimal value from 1 to \<open>2\<^sup>3\<^sup>1 - 1\<close>.

  Claim C7, as the code has it. Let \<open>v\<close> be the numeric prefix of the token as the code
  holds it in its \<open>int32_t\<close>, and \<open>c\<close> the character that follows the prefix. When
  \<open>v \<le> 0\<close> the result is 0. When \<open>v > 0\<close> the size before rounding is
  \<open>(v + 1023) / 1024\<close> for the suffix M or m, \<open>v\<close> for G or g, for no suffix and for any
  other character, \<open>v \<times> 1024\<close> for T or t and \<open>v \<times> 1024\<^sup>2\<close> for P or p, the two
  products modulo \<open>2\<^sup>3\<^sup>2\<close>. A granularity of at most 1 leaves the size as it is; a larger
  one gives the next multiple of the granularity, provided size + granularity - 1 fits in 32
  bits. The six values of the specification hold.
\<close>

theorem bb_get_size_num_value:
  assumes "strtol tok = (l, end_ptr)" and "v = sint (word_of_int l :: u32)"
    and "c = first_char end_ptr"
  shows "(v \<le> 0 \<longrightarrow> bb_get_size_num tok gran = 0)
       \<and> (0 < v \<longrightarrow> unat (bb_size_suffixed tok) =
            (if c = CHR ''m'' \<or> c = CHR ''M'' then (nat v + 1023) div 1024
             else if c = CHR ''g'' \<or> c = CHR ''G'' then nat v
             else if c = CHR ''t'' \<or> c = CHR ''T'' then (nat v * 1024) mod 2 ^ 32
             else if c = CHR ''p'' \<or> c = CHR ''P'' then (nat v * 1024 ^ 2) mod 2 ^ 32
             else nat v))
       \<and> (gran \<le> 1 \<longrightarrow> bb_get_size_num tok gran = bb_size_suffixed tok)
       \<and> (1 < gran \<and> unat (bb_size_suffixed tok) + unat gran - 1 < 2 ^ 32 \<longrightarrow>
            unat gran dvd unat (bb_get_size_num tok gran)
            \<and> unat (bb_size_suffixed tok) \<le> unat (bb_get_size_num tok gran)
            \<and> unat (bb_get_size_num tok gran) < unat (bb_size_suffixed tok) + unat gran)
       \<and> bb_get_size_num ''0'' gran = 0
       \<and> bb_get_size_num ''1M'' 1 = 1
       \<and> bb_get_size_num ''1024M'' 1 = 1
       \<and> bb_get_size_num ''2T'' 1 = 2048
       \<and> bb_get_size_num ''1P'' 1 = 1048576
       \<and> bb_get_size_num ''5G'' 4 = 8"
proof -
  have nonpos: "v \<le> 0 \<longrightarrow> bb_get_size_num tok gran = 0"
    using assms(1,2) by (simp add: bb_get_size_num_def bb_size_suffixed_nonpos bb_round_zero)
  have pos: "0 < v \<longrightarrow> unat (bb_size_suffixed tok) =
            (if c = CHR ''m'' \<or> c = CHR ''M'' then (nat v + 1023) div 1024
             else if c = CHR ''g'' \<or> c = CHR ''G'' then nat v
             else if c = CHR ''t'' \<or> c = CHR ''T'' then (nat v * 1024) mod 2 ^ 32
             else if c = CHR ''p'' \<or> c = CHR ''P'' then (nat v * 1024 ^ 2) mod 2 ^ 32
             else nat v)"
    using bb_size_suffixed_pos[OF assms(1,2) _ assms(3)] by blast
  have small: "gran \<le> 1 \<longrightarrow> bb_get_size_num tok gran = bb_size_suffixed tok"
    by (auto simp add: bb_get_size_num_def bb_round_granularity_def)
  have round: "1 < gran \<and> unat (bb_size_suffixed tok) + unat gran - 1 < 2 ^ 32 \<longrightarrow>
            unat gran dvd unat (bb_get_size_num tok gran)
            \<and> unat (bb_size_suffixed tok) \<le> unat (bb_get_size_num tok gran)
            \<and> unat (bb_get_size_num tok gran) < unat (bb_size_suffixed tok) + unat gran"
    using bb_round_granularity_next_multiple[of gran "bb_size_suffixed tok"]
    unfolding bb_get_size_num_def by blast
  have z: "strtol ''0'' = (0, [])" by (simp add: size_eval)
  have e0: "bb_get_size_num ''0'' gran = 0"
    using z by (simp add: bb_get_size_num_def bb_size_suffixed_nonpos bb_round_zero)
  have e1: "bb_get_size_num ''1M'' 1 = 1" by (simp add: size_eval)
  have e2: "bb_get_size_num ''1024M'' 1 = 1" by (simp add: size_eval)
  have e3: "bb_get_size_num ''2T'' 1 = 2048" by (simp add: size_eval)
  have e4: "bb_get_size_num ''1P'' 1 = 1048576" by (simp add: size_eval)
  have e5: "bb_get_size_num ''5G'' 4 = 8" by (simp add: size_eval)
  show ?thesis
    using nonpos pos small round e0 e1 e2 e3 e4 e5 by blast
qed

theorem bb_get_size_num_value_witness:
  "strtol ''5G'' = (5, ''G'')
   \<and> unat (bb_size_suffixed ''5G'') = 5
   \<and> unat (4 :: u32) dvd unat (bb_get_size_num ''5G'' 4)
   \<and> unat (bb_size_suffixed ''5G'') \<le> unat (bb_get_size_num ''5G'' 4)
   \<and> unat (bb_get_size_num ''5G'' 4) < unat (bb_size_suffixed ''5G'') + unat (4 :: u32)"
proof -
  have h1: "strtol ''5G'' = (5, ''G'')" by (simp add: size_eval)
  have h2: "(5 :: int) = sint (word_of_int 5 :: u32)" by simp
  have h3: "CHR ''G'' = first_char ''G''" by (simp add: first_char_def)
  have b: "unat (bb_size_suffixed ''5G'') = 5" by (simp add: size_eval)
  have g: "(1 :: u32) < 4 \<and> unat (bb_size_suffixed ''5G'') + unat (4 :: u32) - 1 < 2 ^ 32"
    using b by simp
  show ?thesis
    using bb_get_size_num_value[OF h1 h2 h3, of 4] h1 b g by blast
qed

theorem bb_get_size_num_counterexample:
  "bb_get_size_num ''4194304T'' 1 = 0
   \<and> unat (bb_get_size_num ''4194304T'' 1) \<noteq> 4194304 * 1024
   \<and> unat (bb_size_suffixed ''4194303T'') = 4194303 * 1024
   \<and> bb_get_size_num ''4194303T'' 3000 = 0
   \<and> bb_get_size_num ''2147483648'' 1 = 0"
  by (simp add: size_eval)

lemma sint_of_large_nat:
  assumes "2 ^ 31 \<le> v" and "v < 2 ^ 32"
  shows "sint (word_of_int (int v) :: u32) = int v - 2 ^ 32"
proof -
  have a0: "int v < 2 ^ 32" using assms(2) by (metis of_nat_less_iff of_nat_numeral of_nat_power)
  have b0: "(2 :: int) ^ 31 \<le> int v" using assms(1) by (metis of_nat_le_iff of_nat_numeral of_nat_power)
  have a: "int v - 2 ^ 32 < 2 ^ 31" using a0 by simp
  have b: "- (2 ^ 31) \<le> int v - 2 ^ 32" using b0 by simp
  have st: "signed_take_bit 31 (int v - 2 ^ 32) = int v - 2 ^ 32"
    using b a by (rule signed_take_bit_int_eq_self)
  have w: "(word_of_int (int v) :: u32) = word_of_int (int v - 2 ^ 32)" by simp
  have e: "sint (word_of_int (int v - 2 ^ 32) :: u32) = signed_take_bit (LENGTH(32) - 1) (int v - 2 ^ 32)"
    by (rule sint_sbintrunc')
  have l: "LENGTH(32) - 1 = (31 :: nat)" by simp
  show ?thesis by (simp only: w e l st)
qed

lemma bb_atoi_nonpos:
  assumes "strtol tok = (l, end_ptr)" and "sint (word_of_int l :: u32) \<le> 0"
  shows "bb_atoi tok = 0"
  using assms by (simp add: bb_atoi_def)

lemma bb_atoi_pos:
  assumes "strtol tok = (l, end_ptr)" and "v = sint (word_of_int l :: u32)" and "0 < v"
    and "c = first_char end_ptr"
  shows "unat (bb_atoi tok) =
          (if c = CHR ''k'' \<or> c = CHR ''K'' then (nat v * 1024) mod 2 ^ 32
           else if c = CHR ''m'' \<or> c = CHR ''M'' then (nat v * 1024 ^ 2) mod 2 ^ 32
           else if c = CHR ''g'' \<or> c = CHR ''G'' then (nat v * 1024 ^ 3) mod 2 ^ 32
           else nat v)"
proof -
  let ?w = "word_of_int l :: u32"
  have u: "unat ?w = nat v" using assms(2,3) sint_pos_unat[of ?w] by simp
  show ?thesis
    using assms(1,2,3,4) u
    by (auto simp add: bb_atoi_def unat_word_ariths(2) mult.commute)
qed

lemma sint_minus_one_LONG_MAX: "sint (word_of_int LONG_MAX :: u32) = - 1"
  by (simp add: LONG_MAX_def)

lemma strtol_prefix:
  assumes "strtol tok = (l, end_ptr)" and "n = sint (word_of_int l :: u32)"
    and "tok = ds @ sfx" and "ds \<noteq> []" and "\<forall>ch\<in>set ds. isdigit_c ch"
    and "\<not> isdigit_c (first_char sfx)"
  shows "end_ptr = sfx \<and> l = min LONG_MAX (int (decimal ds))
       \<and> (decimal ds < 2 ^ 31 \<longrightarrow> n = int (decimal ds))
       \<and> (2 ^ 31 \<le> decimal ds \<and> decimal ds < 2 ^ 32 \<longrightarrow> n = int (decimal ds) - 2 ^ 32)
       \<and> (2 ^ 63 \<le> decimal ds \<longrightarrow> n = - 1)"
proof -
  have s: "strtol tok = (min LONG_MAX (int (decimal ds)), sfx)"
    using strtol_decimal[OF assms(4,5,6)] assms(3) by simp
  then have e: "end_ptr = sfx" and l: "l = min LONG_MAX (int (decimal ds))"
    using assms(1) by simp_all
  have small: "decimal ds < 2 ^ 31 \<longrightarrow> n = int (decimal ds)"
  proof
    assume d: "decimal ds < 2 ^ 31"
    then have "int (decimal ds) \<le> LONG_MAX" by (simp add: LONG_MAX_def)
    then have "l = int (decimal ds)" using l by simp
    then show "n = int (decimal ds)" using assms(2) sint_of_small_nat[OF d] by simp
  qed
  have large: "2 ^ 31 \<le> decimal ds \<and> decimal ds < 2 ^ 32 \<longrightarrow> n = int (decimal ds) - 2 ^ 32"
  proof
    assume d: "2 ^ 31 \<le> decimal ds \<and> decimal ds < 2 ^ 32"
    then have "int (decimal ds) \<le> LONG_MAX" by (simp add: LONG_MAX_def)
    then have "l = int (decimal ds)" using l by simp
    then show "n = int (decimal ds) - 2 ^ 32"
      using assms(2) sint_of_large_nat[of "decimal ds"] d by simp
  qed
  have huge: "2 ^ 63 \<le> decimal ds \<longrightarrow> n = - 1"
  proof
    assume d: "2 ^ 63 \<le> decimal ds"
    then have "(2 :: int) ^ 63 \<le> int (decimal ds)" by (metis of_nat_le_iff of_nat_numeral of_nat_power)
    then have "LONG_MAX \<le> int (decimal ds)" by (simp add: LONG_MAX_def)
    then have "l = LONG_MAX" using l by simp
    then show "n = - 1" using assms(2) sint_minus_one_LONG_MAX by simp
  qed
  show ?thesis using e l small large huge by blast
qed

text \<open>
  Claim C10, as the code has it. The suffix multiplications of \<open>_atoi\<close> and
  \<open>bb_get_size_num\<close> are made in \<open>uint32_t\<close> and wrap modulo \<open>2\<^sup>3\<^sup>2\<close>, on the numeric
  prefix as the code holds it in its \<open>int32_t\<close>. Let \<open>n\<close> be that value. When \<open>n > 0\<close>,
  \<open>_atoi\<close> returns \<open>n \<times> 1024\<close>, \<open>n \<times> 1024\<^sup>2\<close> and \<open>n \<times> 1024\<^sup>3\<close> modulo
  \<open>2\<^sup>3\<^sup>2\<close> for the suffixes k, m and g (in either case), so \<open>_atoi("4g") = 0\<close>, and the
  size \<open>bb_get_size_num\<close> rounds to the granularity is \<open>n \<times> 1024\<close> and
  \<open>n \<times> 1024\<^sup>2\<close> modulo \<open>2\<^sup>3\<^sup>2\<close> for the suffixes t and p. When \<open>n \<le> 0\<close> both functions
  return 0 whatever the suffix. For a token that starts with the decimal digits \<open>ds\<close>,
  \<open>n\<close> is the number \<open>ds\<close> denotes when that is below \<open>2\<^sup>3\<^sup>1\<close>; it is that number less
  \<open>2\<^sup>3\<^sup>2\<close>, which is negative, when the number is from \<open>2\<^sup>3\<^sup>1\<close> to \<open>2\<^sup>3\<^sup>2 - 1\<close>; and it is
  -1 when the number is \<open>2\<^sup>6\<^sup>3\<close> or more.
\<close>

theorem suffix_multiplications_wrap:
  assumes "strtol tok = (l, end_ptr)" and "n = sint (word_of_int l :: u32)"
    and "c = first_char end_ptr"
  shows "(0 < n \<longrightarrow>
            (c = CHR ''k'' \<or> c = CHR ''K'' \<longrightarrow> unat (bb_atoi tok) = (nat n * 1024) mod 2 ^ 32)
          \<and> (c = CHR ''m'' \<or> c = CHR ''M'' \<longrightarrow> unat (bb_atoi tok) = (nat n * 1024 ^ 2) mod 2 ^ 32)
          \<and> (c = CHR ''g'' \<or> c = CHR ''G'' \<longrightarrow> unat (bb_atoi tok) = (nat n * 1024 ^ 3) mod 2 ^ 32)
          \<and> (c = CHR ''t'' \<or> c = CHR ''T'' \<longrightarrow>
               unat (bb_size_suffixed tok) = (nat n * 1024) mod 2 ^ 32)
          \<and> (c = CHR ''p'' \<or> c = CHR ''P'' \<longrightarrow>
               unat (bb_size_suffixed tok) = (nat n * 1024 ^ 2) mod 2 ^ 32))
       \<and> (n \<le> 0 \<longrightarrow> bb_atoi tok = 0 \<and> bb_size_suffixed tok = 0 \<and> bb_get_size_num tok gran = 0)
       \<and> (\<forall>ds sfx. tok = ds @ sfx \<and> ds \<noteq> [] \<and> (\<forall>ch\<in>set ds. isdigit_c ch) \<and> \<not> isdigit_c (first_char sfx) \<longrightarrow>
            end_ptr = sfx \<and> l = min LONG_MAX (int (decimal ds))
            \<and> (decimal ds < 2 ^ 31 \<longrightarrow> n = int (decimal ds))
            \<and> (2 ^ 31 \<le> decimal ds \<and> decimal ds < 2 ^ 32 \<longrightarrow> n = int (decimal ds) - 2 ^ 32)
            \<and> (2 ^ 63 \<le> decimal ds \<longrightarrow> n = - 1))
       \<and> bb_get_size_num tok gran = bb_round_granularity (bb_size_suffixed tok) gran
       \<and> bb_atoi ''4g'' = 0"
proof -
  have pos: "0 < n \<longrightarrow>
            (c = CHR ''k'' \<or> c = CHR ''K'' \<longrightarrow> unat (bb_atoi tok) = (nat n * 1024) mod 2 ^ 32)
          \<and> (c = CHR ''m'' \<or> c = CHR ''M'' \<longrightarrow> unat (bb_atoi tok) = (nat n * 1024 ^ 2) mod 2 ^ 32)
          \<and> (c = CHR ''g'' \<or> c = CHR ''G'' \<longrightarrow> unat (bb_atoi tok) = (nat n * 1024 ^ 3) mod 2 ^ 32)
          \<and> (c = CHR ''t'' \<or> c = CHR ''T'' \<longrightarrow>
               unat (bb_size_suffixed tok) = (nat n * 1024) mod 2 ^ 32)
          \<and> (c = CHR ''p'' \<or> c = CHR ''P'' \<longrightarrow>
               unat (bb_size_suffixed tok) = (nat n * 1024 ^ 2) mod 2 ^ 32)"
  proof
    assume p: "0 < n"
    show "(c = CHR ''k'' \<or> c = CHR ''K'' \<longrightarrow> unat (bb_atoi tok) = (nat n * 1024) mod 2 ^ 32)
      \<and> (c = CHR ''m'' \<or> c = CHR ''M'' \<longrightarrow> unat (bb_atoi tok) = (nat n * 1024 ^ 2) mod 2 ^ 32)
      \<and> (c = CHR ''g'' \<or> c = CHR ''G'' \<longrightarrow> unat (bb_atoi tok) = (nat n * 1024 ^ 3) mod 2 ^ 32)
      \<and> (c = CHR ''t'' \<or> c = CHR ''T'' \<longrightarrow>
           unat (bb_size_suffixed tok) = (nat n * 1024) mod 2 ^ 32)
      \<and> (c = CHR ''p'' \<or> c = CHR ''P'' \<longrightarrow>
           unat (bb_size_suffixed tok) = (nat n * 1024 ^ 2) mod 2 ^ 32)"
      using bb_atoi_pos[OF assms(1,2) p assms(3)] bb_size_suffixed_pos[OF assms(1,2) p assms(3)]
      by auto
  qed
  have nonpos: "n \<le> 0 \<longrightarrow> bb_atoi tok = 0 \<and> bb_size_suffixed tok = 0 \<and> bb_get_size_num tok gran = 0"
    using assms(1,2)
    by (simp add: bb_atoi_nonpos bb_size_suffixed_nonpos bb_get_size_num_def bb_round_zero)
  have dec: "\<forall>ds sfx. tok = ds @ sfx \<and> ds \<noteq> [] \<and> (\<forall>ch\<in>set ds. isdigit_c ch) \<and> \<not> isdigit_c (first_char sfx) \<longrightarrow>
            end_ptr = sfx \<and> l = min LONG_MAX (int (decimal ds))
            \<and> (decimal ds < 2 ^ 31 \<longrightarrow> n = int (decimal ds))
            \<and> (2 ^ 31 \<le> decimal ds \<and> decimal ds < 2 ^ 32 \<longrightarrow> n = int (decimal ds) - 2 ^ 32)
            \<and> (2 ^ 63 \<le> decimal ds \<longrightarrow> n = - 1)"
    using strtol_prefix[OF assms(1,2)] by blast
  have g: "bb_get_size_num tok gran = bb_round_granularity (bb_size_suffixed tok) gran"
    by (simp add: bb_get_size_num_def)
  have e: "bb_atoi ''4g'' = 0" by (simp add: size_eval)
  show ?thesis using pos nonpos dec g e by (intro conjI)
qed

theorem suffix_multiplications_wrap_witness:
  "unat (bb_atoi ''4g'') = (4 * 1024 ^ 3) mod 2 ^ 32 \<and> bb_atoi ''4g'' = 0
   \<and> sint (word_of_int 4 :: u32) = int (decimal ''4'')
   \<and> unat (bb_size_suffixed ''4096P'') = (4096 * 1024 ^ 2) mod 2 ^ 32
   \<and> sint (word_of_int 2147483649 :: u32) = int (decimal ''2147483649'') - 2 ^ 32
   \<and> bb_atoi ''2147483649g'' = 0 \<and> bb_get_size_num ''2147483649g'' 7 = 0"
proof -
  have h1: "strtol ''4g'' = (4, ''g'')" by (simp add: size_eval)
  have h2: "(4 :: int) = sint (word_of_int 4 :: u32)" by simp
  have h3: "(0 :: int) < 4" by simp
  have h4: "CHR ''g'' = first_char ''g''" by (simp add: first_char_def)
  have h5: "''4g'' = ''4'' @ ''g'' \<and> ''4'' \<noteq> [] \<and> (\<forall>ch\<in>set ''4''. isdigit_c ch)
      \<and> \<not> isdigit_c (first_char ''g'')"
    by (simp add: isdigit_c_def first_char_def)
  have h6: "decimal ''4'' < 2 ^ 31" by (simp add: decimal_def digit_val_def)
  note A = suffix_multiplications_wrap[OF h1 h2 h4, of 1]
  have a1: "unat (bb_atoi ''4g'') = (nat 4 * 1024 ^ 3) mod 2 ^ 32"
    using A[THEN conjunct1, THEN mp, OF h3] by simp
  have a2: "bb_atoi ''4g'' = 0"
    by (rule A[THEN conjunct2, THEN conjunct2, THEN conjunct2, THEN conjunct2])
  have a3: "(4 :: int) = int (decimal ''4'')"
    by (rule A[THEN conjunct2, THEN conjunct2, THEN conjunct1, THEN spec, THEN spec, THEN mp, OF h5,
          THEN conjunct2, THEN conjunct2, THEN conjunct1, THEN mp, OF h6])
  have k1: "strtol ''4096P'' = (4096, ''P'')" by (simp add: size_eval)
  have k2: "(4096 :: int) = sint (word_of_int 4096 :: u32)" by simp
  have k3: "(0 :: int) < 4096" by simp
  have k4: "CHR ''P'' = first_char ''P''" by (simp add: first_char_def)
  have b1: "unat (bb_size_suffixed ''4096P'') = (nat 4096 * 1024 ^ 2) mod 2 ^ 32"
    using suffix_multiplications_wrap[OF k1 k2 k4, of 1, THEN conjunct1, THEN mp, OF k3] by simp
  have m1: "strtol ''2147483649g'' = (2147483649, ''g'')" by (simp add: size_eval)
  have m2: "(- 2147483647 :: int) = sint (word_of_int 2147483649 :: u32)" by simp
  have m3: "(- 2147483647 :: int) \<le> 0" by simp
  have m5: "''2147483649g'' = ''2147483649'' @ ''g'' \<and> ''2147483649'' \<noteq> []
      \<and> (\<forall>ch\<in>set ''2147483649''. isdigit_c ch) \<and> \<not> isdigit_c (first_char ''g'')"
    by (simp add: isdigit_c_def first_char_def)
  have m6: "2 ^ 31 \<le> decimal ''2147483649'' \<and> decimal ''2147483649'' < 2 ^ 32"
    by (simp add: decimal_def digit_val_def)
  note M = suffix_multiplications_wrap[OF m1 m2 h4, of 7]
  have c1: "bb_atoi ''2147483649g'' = 0 \<and> bb_size_suffixed ''2147483649g'' = 0
      \<and> bb_get_size_num ''2147483649g'' 7 = 0"
    by (rule M[THEN conjunct2, THEN conjunct1, THEN mp, OF m3])
  have c2: "(- 2147483647 :: int) = int (decimal ''2147483649'') - 2 ^ 32"
    by (rule M[THEN conjunct2, THEN conjunct2, THEN conjunct1, THEN spec, THEN spec, THEN mp, OF m5,
          THEN conjunct2, THEN conjunct2, THEN conjunct2, THEN conjunct1, THEN mp, OF m6])
  have a1': "unat (bb_atoi ''4g'') = (4 * 1024 ^ 3) mod 2 ^ 32" using a1 by simp
  have a3': "sint (word_of_int 4 :: u32) = int (decimal ''4'')"
    by (rule trans[OF h2[symmetric] a3])
  have b1': "unat (bb_size_suffixed ''4096P'') = (4096 * 1024 ^ 2) mod 2 ^ 32" using b1 by simp
  have c2': "sint (word_of_int 2147483649 :: u32) = int (decimal ''2147483649'') - 2 ^ 32"
    by (rule trans[OF m2[symmetric] c2])
  note c3 = c1[THEN conjunct1]
  note c4 = c1[THEN conjunct2, THEN conjunct2]
  show ?thesis using a1' a2 a3' b1' c2' c3 c4 by (intro conjI)
qed

text \<open>
  The token \<open>2147483649g\<close> has the numeric prefix \<open>2\<^sup>3\<^sup>1 + 1\<close>, which is positive, and
  \<open>_atoi\<close> returns 0 for it, where the product modulo \<open>2\<^sup>3\<^sup>2\<close> is \<open>2\<^sup>3\<^sup>0\<close>; and
  \<open>bb_get_size_num\<close> returns 0 for \<open>2147483649P\<close>, where the product modulo \<open>2\<^sup>3\<^sup>2\<close> is
  \<open>2\<^sup>2\<^sup>0\<close>.
\<close>

theorem suffix_multiplications_counterexample:
  "strtol ''2147483649g'' = (2147483649, ''g'')
   \<and> decimal ''2147483649'' = 2147483649
   \<and> bb_atoi ''2147483649g'' = 0
   \<and> (2147483649 * 1024 ^ 3) mod 2 ^ 32 = (1073741824 :: nat)
   \<and> bb_size_suffixed ''2147483649P'' = 0
   \<and> bb_get_size_num ''2147483649P'' 1 = 0
   \<and> (2147483649 * 1024 ^ 2) mod 2 ^ 32 = (1048576 :: nat)"
  by (simp add: size_eval decimal_def)

section \<open>Properties of the configuration reset\<close>

lemma gres_clear_avail_ok:
  assumes "gres_ptr c = Some gs" and "length gs = unat (gres_cnt c)"
  shows "gres_clear_avail (gres_cnt c) (gres_ptr c) = Some (Some (map (\<lambda>g. g\<lparr>avail_cnt := 0\<rparr>) gs))"
  using assms by (cases gs) (auto simp add: gres_clear_avail_def unat_eq_0)

lemma gres_free_names_ok:
  assumes "gres_ptr c = Some gs" and "length gs = unat (gres_cnt c)"
  shows "gres_free_names (gres_cnt c) (gres_ptr c) = Some (Some (map (\<lambda>g. g\<lparr>gres_name := None\<rparr>) gs))"
  using assms by (cases gs) (auto simp add: gres_free_names_def unat_eq_0)

lemma bb_clear_config_reload:
  assumes "gres_ptr c = Some gs" and "length gs = unat (gres_cnt c)"
  shows "bb_clear_config NO_VAL (Some c) False =
         Some \<lparr>allow_users = None, allow_users_str = None, debug_flag = False,
               deny_users = None, deny_users_str = None, get_sys_state = None,
               granularity = 1, gres_cnt = gres_cnt c,
               gres_ptr = Some (map (\<lambda>g. g\<lparr>avail_cnt := 0\<rparr>) gs),
               job_size_limit = NO_VAL, stage_in_timeout = 0, stage_out_timeout = 0,
               prio_boost_alloc = 0, prio_boost_use = 0, private_data = private_data c,
               start_stage_in = None, start_stage_out = None,
               stop_stage_in = None, stop_stage_out = None, user_size_limit = NO_VAL\<rparr>"
  using gres_clear_avail_ok[OF assms] by (simp add: bb_clear_config_def)

lemma bb_clear_config_fini:
  assumes "gres_ptr c = Some gs" and "length gs = unat (gres_cnt c)"
  shows "bb_clear_config NO_VAL (Some c) True =
         Some \<lparr>allow_users = None, allow_users_str = None, debug_flag = False,
               deny_users = None, deny_users_str = None, get_sys_state = None,
               granularity = 1, gres_cnt = 0, gres_ptr = None,
               job_size_limit = NO_VAL, stage_in_timeout = 0, stage_out_timeout = 0,
               prio_boost_alloc = 0, prio_boost_use = 0, private_data = private_data c,
               start_stage_in = None, start_stage_out = None,
               stop_stage_in = None, stop_stage_out = None, user_size_limit = NO_VAL\<rparr>"
  using gres_free_names_ok[OF assms] by (simp add: bb_clear_config_def)

text \<open>
  The two lemmas above say what \<open>bb_clear_config\<close> does to a configuration whose GRES
  array has \<open>gres_cnt\<close> entries: every field is reset or freed as the line for it says,
  each entry keeps its name and its \<open>used_cnt\<close>, and \<open>private_data\<close> is left as it was.

  Claim C9 says that \<open>bb_clear_config\<close> resets all scalar fields of the configuration.
  The code has no line for \<open>private_data\<close>: a configuration with the flag set keeps it set,
  here with \<open>fini\<close> false and \<open>NO_VAL = 0xFFFFFFFE\<close>.
\<close>

theorem bb_clear_config_keeps_private_data:
  "bb_clear_config 0xFFFFFFFE
     (Some \<lparr>allow_users = Some [1000], allow_users_str = Some ''alice'', debug_flag = True,
            deny_users = None, deny_users_str = None, get_sys_state = Some ''/bin/state'',
            granularity = 4, gres_cnt = 1,
            gres_ptr = Some [\<lparr>gres_name = Some ''nodes'', avail_cnt = 8, used_cnt = 2\<rparr>],
            job_size_limit = 100, stage_in_timeout = 30, stage_out_timeout = 30,
            prio_boost_alloc = 5, prio_boost_use = 5, private_data = 1,
            start_stage_in = None, start_stage_out = None,
            stop_stage_in = None, stop_stage_out = None, user_size_limit = 200\<rparr>) False
   = Some \<lparr>allow_users = None, allow_users_str = None, debug_flag = False,
            deny_users = None, deny_users_str = None, get_sys_state = None,
            granularity = 1, gres_cnt = 1,
            gres_ptr = Some [\<lparr>gres_name = Some ''nodes'', avail_cnt = 0, used_cnt = 2\<rparr>],
            job_size_limit = 0xFFFFFFFE, stage_in_timeout = 0, stage_out_timeout = 0,
            prio_boost_alloc = 0, prio_boost_use = 0, private_data = 1,
            start_stage_in = None, start_stage_out = None,
            stop_stage_in = None, stop_stage_out = None, user_size_limit = 0xFFFFFFFE\<rparr>"
proof -
  let ?gs = "[\<lparr>gres_name = Some ''nodes'', avail_cnt = 8 :: u32, used_cnt = 2 :: u32\<rparr>]"
  let ?c = "\<lparr>allow_users = Some [1000], allow_users_str = Some ''alice'', debug_flag = True,
            deny_users = None, deny_users_str = None, get_sys_state = Some ''/bin/state'',
            granularity = 4, gres_cnt = 1, gres_ptr = Some ?gs,
            job_size_limit = 100, stage_in_timeout = 30, stage_out_timeout = 30,
            prio_boost_alloc = 5, prio_boost_use = 5, private_data = 1,
            start_stage_in = None, start_stage_out = None,
            stop_stage_in = None, stop_stage_out = None, user_size_limit = 200\<rparr>"
  have h1: "gres_ptr ?c = Some ?gs" by simp
  have h2: "length ?gs = unat (gres_cnt ?c)" by simp
  show ?thesis
    using bb_clear_config_reload[OF h1 h2, of "0xFFFFFFFE"] by simp
qed

section \<open>Properties of the script runner\<close>

lemma read_loop_past_deadline:
  "read_loop 2 1000 1024 []
     [\<lparr>clock = 1100, poll_status = 1, pollin = True, read_res = Read_data ''x''\<rparr>,
      \<lparr>clock = 1200, poll_status = 1, pollin = True, read_res = Read_data ''y''\<rparr>,
      \<lparr>clock = 1300, poll_status = 0, pollin = False, read_res = Read_eof\<rparr>]
   = Some (2048, ''xy'')"
  by simp

text \<open>
  The lemma above is a child that keeps writing: with \<open>max_wait = 2\<close> and a start at 1000
  the loop still reads at 1100 and 1200, since \<open>new_wait\<close> grows with the time elapsed.

  Claim C1, as the code has it. For \<open>max_wait \<ge> 0\<close>, \<open>run_script\<close> returns \<open>NULL\<close> when
  the path is missing or empty, when it does not start with a slash, when \<open>access\<close>
  refuses it, and when \<open>pipe\<close> or \<open>fork\<close> fails. In the parent of a child that was
  forked it returns the response buffer, which is not \<open>NULL\<close>, whenever the read loop ends:
  the loop ends with the bytes read so far when \<open>poll\<close> times out and when \<open>read\<close> fails
  with an error other than \<open>EAGAIN\<close>.
\<close>

theorem run_script_failures:
  assumes "0 \<le> max_wait"
  shows "(script_path = None \<or> script_path = Some [] \<or> (\<exists>p. script_path = Some p \<and> hd p \<noteq> CHR ''/'')
           \<or> access_rc os < 0 \<or> pipe_rc os \<noteq> 0 \<or> fork_rc os < 0
          \<longrightarrow> run_script os script_type script_path script_argv max_wait = Returned None)
       \<and> (script_path = Some p \<and> p \<noteq> [] \<and> hd p = CHR ''/'' \<and> 0 \<le> access_rc os \<and> pipe_rc os = 0
           \<and> 0 < fork_rc os
          \<longrightarrow> run_script os script_type script_path script_argv max_wait =
               (case read_loop max_wait (start_time os) 1024 [] (turns os) of
                  None \<Rightarrow> Still_reading
                | Some (resp_size, resp) \<Rightarrow> Returned (Some resp))
              \<and> run_script os script_type script_path script_argv max_wait \<noteq> Returned None)
       \<and> (0 < clock t - start + max_wait \<and> poll_status t < 1
          \<longrightarrow> read_loop max_wait start resp_size resp (t # ts) = Some (resp_size, resp))
       \<and> (0 < clock t - start + max_wait \<and> 1 \<le> poll_status t \<and> pollin t
           \<and> read_res t = Read_error False
          \<longrightarrow> read_loop max_wait start resp_size resp (t # ts) = Some (resp_size, resp))"
  using assms by (auto simp add: run_script_def split: option.splits)

theorem run_script_failures_witness:
  "run_script \<lparr>access_rc = - 1, pipe_rc = 0, fork_rc = 4242, start_time = 1000, turns = []\<rparr>
     ''probe'' (Some ''/bin/missing'') [''missing''] 2 = Returned None
   \<and> run_script \<lparr>access_rc = 0, pipe_rc = 0, fork_rc = 4242, start_time = 1000,
        turns = [\<lparr>clock = 1000, poll_status = 1, pollin = True, read_res = Read_data ''ok''\<rparr>,
                 \<lparr>clock = 1001, poll_status = 0, pollin = False, read_res = Read_eof\<rparr>]\<rparr>
     ''probe'' (Some ''/bin/echo'') [''echo'', ''ok''] 2 = Returned (Some ''ok'')"
proof -
  have h: "(0::int) \<le> 2" by simp
  show ?thesis
    using run_script_failures[OF h, where script_path = "Some ''/bin/missing''"
        and os = "\<lparr>access_rc = - 1, pipe_rc = 0, fork_rc = 4242, start_time = 1000, turns = []\<rparr>"
        and script_type = "''probe''" and script_argv = "[''missing'']"]
      run_script_failures[OF h, where script_path = "Some ''/bin/echo''"
        and os = "\<lparr>access_rc = 0, pipe_rc = 0, fork_rc = 4242, start_time = 1000,
        turns = [\<lparr>clock = 1000, poll_status = 1, pollin = True, read_res = Read_data ''ok''\<rparr>,
                 \<lparr>clock = 1001, poll_status = 0, pollin = False, read_res = Read_eof\<rparr>]\<rparr>"
        and p = "''/bin/echo''" and script_type = "''probe''" and script_argv = "[''echo'', ''ok'']"]
    by simp
qed

theorem run_script_timeout_counterexample:
  "run_script \<lparr>access_rc = 0, pipe_rc = 0, fork_rc = 4242, start_time = 1000,
        turns = [\<lparr>clock = 1000, poll_status = 0, pollin = False, read_res = Read_eof\<rparr>]\<rparr>
     ''probe'' (Some ''/bin/sleep'') [''sleep'', ''60''] 2 = Returned (Some [])
   \<and> run_script \<lparr>access_rc = 0, pipe_rc = 0, fork_rc = 4242, start_time = 1000,
        turns = [\<lparr>clock = 1000, poll_status = 0, pollin = False, read_res = Read_eof\<rparr>]\<rparr>
     ''probe'' (Some ''/bin/sleep'') [''sleep'', ''60''] 2 \<noteq> Returned None"
  by (simp add: run_script_def)

section \<open>Properties of the worker\<close>

text \<open>
  Claim C2. A worker that gets past its two fatal tests stores \<open>DSH_DONE\<close> in its record
  exactly when \<open>slurm_open_msg_conn\<close>, \<open>slurm_send_node_msg\<close>, \<open>slurm_receive_msg\<close> and
  \<open>slurm_shutdown_msg_conn\<close> all succeed, the size returned by the receive is zero, and the
  reply is \<open>RESPONSE_SLURM_RC\<close> with return code 0; in every other case it stores
  \<open>DSH_FAILED\<close>.
\<close>

theorem worker_terminal_state:
  assumes "sigprocmask_rc = 0" and "i < length (thread_struct a)"
  shows "\<exists>a'. thread_per_node_rpc sock_err sigprocmask_rc (Some i) r t0 t1 a = Inr a'
           \<and> state (thread_struct a' ! i) =
               (if open_rc r \<noteq> sock_err \<and> send_rc r \<noteq> sock_err \<and> receive_rc r \<noteq> sock_err
                   \<and> shutdown_rc r \<noteq> sock_err \<and> receive_rc r = 0
                   \<and> response_type r = RESPONSE_SLURM_RC \<and> return_code r = 0
                then DSH_DONE else DSH_FAILED)"
  using assms
  by (auto simp add: thread_per_node_rpc_def worker_finish_def worker_start_def
      rpc_thread_state_def split: slurm_msg_type_t.splits)

theorem worker_terminal_state_witness:
  "thread_per_node_rpc (- 1) 0 (Some 0)
      \<lparr>open_rc = 3, send_rc = 0, receive_rc = 0, shutdown_rc = 0,
       response_type = RESPONSE_SLURM_RC, return_code = 0\<rparr> 10 12
      \<lparr>thread_count = 1, threads_active = 1,
       thread_struct = [\<lparr>state = DSH_NEW, time = 0, slurm_addr = 7, node_name = ''n0''\<rparr>],
       msg_type = REQUEST_PING, msg_args = 0\<rparr>
   = Inr \<lparr>thread_count = 1, threads_active = 0,
       thread_struct = [\<lparr>state = DSH_DONE, time = 2, slurm_addr = 7, node_name = ''n0''\<rparr>],
       msg_type = REQUEST_PING, msg_args = 0\<rparr>"
proof -
  let ?a = "\<lparr>thread_count = 1, threads_active = 1,
       thread_struct = [\<lparr>state = DSH_NEW, time = 0, slurm_addr = 7, node_name = ''n0''\<rparr>],
       msg_type = REQUEST_PING, msg_args = 0\<rparr>"
  have h1: "(0::int) = 0" by simp
  have h2: "0 < length (thread_struct ?a)" by simp
  show ?thesis
    using worker_terminal_state[OF h1 h2, of "- 1"]
    by (simp add: thread_per_node_rpc_def worker_finish_def worker_start_def rpc_thread_state_def
        double_to_time_def difftime_def LONG_MIN_def LONG_MAX_def)
qed

section \<open>Properties of the agent's argument tests\<close>

text \<open>
  Claim C3, as the code has it. A \<open>NULL\<close> argument is fatal. Otherwise, when
  \<open>addr_count\<close> is 0 the agent goes to \<open>cleanup\<close> before any thread is created, whatever
  the other fields hold, and nothing is fatal; when \<open>addr_count\<close> is not 0, the call is
  fatal exactly when the address list is \<open>NULL\<close>, the node name list is \<open>NULL\<close> or the
  message type is none of \<open>REQUEST_REVOKE_JOB_CREDENTIAL\<close>,
  \<open>REQUEST_NODE_REGISTRATION_STATUS\<close> and \<open>REQUEST_PING\<close>, and otherwise the agent
  goes on with the initialised thread records.
\<close>

theorem agent_argument_tests:
  "is_fatal (agent None)
   \<and> (addr_count a = 0 \<longrightarrow> agent (Some a) = Agent_cleanup)
   \<and> (addr_count a \<noteq> 0 \<longrightarrow>
        (is_fatal (agent (Some a)) \<longleftrightarrow>
           arg_slurm_addr a = None \<or> arg_node_names a = None
           \<or> arg_msg_type a \<notin> {REQUEST_REVOKE_JOB_CREDENTIAL, REQUEST_NODE_REGISTRATION_STATUS, REQUEST_PING}))
   \<and> (addr_count a \<noteq> 0 \<and> \<not> is_fatal (agent (Some a)) \<longrightarrow>
        (\<exists>addrs names. arg_slurm_addr a = Some addrs \<and> arg_node_names a = Some names
           \<and> agent (Some a) = Agent_started (agent_init a addrs names)))"
  by (auto simp add: agent_def is_fatal_def split: option.splits)

theorem agent_argument_tests_witness:
  "agent (Some \<lparr>addr_count = 0, arg_slurm_addr = Some [], arg_node_names = Some [],
                 arg_msg_type = REQUEST_PING, arg_msg_args = 0\<rparr>) = Agent_cleanup
   \<and> is_fatal (agent (Some \<lparr>addr_count = 1, arg_slurm_addr = None, arg_node_names = Some [''n0''],
                 arg_msg_type = REQUEST_PING, arg_msg_args = 0\<rparr>))
   \<and> is_fatal (agent (Some \<lparr>addr_count = 1, arg_slurm_addr = Some [7], arg_node_names = Some [''n0''],
                 arg_msg_type = RESPONSE_SLURM_RC, arg_msg_args = 0\<rparr>))"
  using agent_argument_tests[of "\<lparr>addr_count = 0, arg_slurm_addr = Some [], arg_node_names = Some [],
                 arg_msg_type = REQUEST_PING, arg_msg_args = 0\<rparr>"]
    agent_argument_tests[of "\<lparr>addr_count = 1, arg_slurm_addr = None, arg_node_names = Some [''n0''],
                 arg_msg_type = REQUEST_PING, arg_msg_args = 0\<rparr>"]
    agent_argument_tests[of "\<lparr>addr_count = 1, arg_slurm_addr = Some [7], arg_node_names = Some [''n0''],
                 arg_msg_type = RESPONSE_SLURM_RC, arg_msg_args = 0\<rparr>"]
  by simp

theorem agent_argument_tests_counterexample:
  "agent (Some \<lparr>addr_count = 0, arg_slurm_addr = None, arg_node_names = None,
                 arg_msg_type = RESPONSE_SLURM_RC, arg_msg_args = 0\<rparr>) = Agent_cleanup
   \<and> \<not> is_fatal (agent (Some \<lparr>addr_count = 0, arg_slurm_addr = None, arg_node_names = None,
                 arg_msg_type = RESPONSE_SLURM_RC, arg_msg_args = 0\<rparr>))"
  by (simp add: agent_def is_fatal_def)

section \<open>Properties of the watchdog\<close>

lemma wdog_pass_work_done:
  "work_done (wdog_pass CT now i ts w) \<longleftrightarrow> work_done w \<and> (\<forall>t\<in>set ts. \<not> in_progress t)"
  by (induction ts arbitrary: i w) (auto simp add: in_progress_def Let_def split: state_t.splits)

lemma wdog_pass_records:
  "records (wdog_pass CT now i ts w) = records w @ ts"
  by (induction ts arbitrary: i w) (auto simp add: Let_def split: state_t.splits)

lemma wdog_pass_fail_cnt:
  "fail_cnt (wdog_pass CT now i ts w) = fail_cnt w + length (filter (\<lambda>t. state t = DSH_FAILED) ts)"
  by (induction ts arbitrary: i w) (auto simp add: Let_def split: state_t.splits)


lemma wdog_poll_work_done:
  "work_done (wdog_poll CT now ts md) \<longleftrightarrow> (\<forall>t\<in>set ts. \<not> in_progress t)"
  by (simp add: wdog_poll_def wdog_pass_work_done)

lemma wdog_poll_records: "records (wdog_poll CT now ts md) = ts"
  by (simp add: wdog_poll_def wdog_pass_records)

lemma wdog_poll_fail_cnt:
  "fail_cnt (wdog_poll CT now ts md) = length (filter (\<lambda>t. state t = DSH_FAILED) ts)"
  by (simp add: wdog_poll_def wdog_pass_fail_cnt)

lemma wdog_loop_exit:
  assumes "wdog_loop CT polls md = Some w"
  shows "\<exists>ps now qs md'. polls = ps @ (now, records w) # qs
           \<and> (\<forall>p\<in>set ps. \<exists>t\<in>set (snd p). in_progress t)
           \<and> w = wdog_poll CT now (records w) md'
           \<and> (\<forall>t\<in>set (records w). \<not> in_progress t)"
  using assms
proof (induction polls arbitrary: md)
  case Nil
  then show ?case by simp
next
  case (Cons p polls)
  obtain now ts where p: "p = (now, ts)" by (cases p)
  show ?case
  proof (cases "work_done (wdog_poll CT now ts md)")
    case True
    then have w: "w = wdog_poll CT now ts md" using Cons.prems p by simp
    then have r: "records w = ts" by (simp add: wdog_poll_records)
    have "p # polls = [] @ (now, records w) # polls" using p r by simp
    moreover have "\<forall>t\<in>set (records w). \<not> in_progress t"
      using True r wdog_poll_work_done by simp
    moreover have "w = wdog_poll CT now (records w) md" using w r by simp
    ultimately show ?thesis by (metis empty_iff list.set(1))
  next
    case False
    then have "wdog_loop CT polls (max_delay (wdog_poll CT now ts md)) = Some w"
      using Cons.prems p by simp
    from Cons.IH[OF this] obtain ps now' qs md' where
      e: "polls = ps @ (now', records w) # qs"
      and b: "\<forall>p\<in>set ps. \<exists>t\<in>set (snd p). in_progress t"
      and w: "w = wdog_poll CT now' (records w) md'"
      and d: "\<forall>t\<in>set (records w). \<not> in_progress t"
      by blast
    have busy: "\<exists>t\<in>set (snd p). in_progress t"
      using False p wdog_poll_work_done by simp
    have "p # polls = (p # ps) @ (now', records w) # qs" using e by simp
    moreover have "\<forall>q\<in>set (p # ps). \<exists>t\<in>set (snd q). in_progress t" using b busy by simp
    ultimately show ?thesis using w d by blast
  qed
qed

lemma wdog_loop_returns:
  assumes "(now, ts) \<in> set polls" and "\<forall>t\<in>set ts. \<not> in_progress t"
  shows "\<exists>w. wdog_loop CT polls md = Some w"
  using assms
proof (induction polls arbitrary: md)
  case Nil
  then show ?case by simp
next
  case (Cons p polls)
  obtain n s where p: "p = (n, s)" by (cases p)
  show ?case
  proof (cases "work_done (wdog_poll CT n s md)")
    case True
    then show ?thesis using p by simp
  next
    case False
    then have "p \<noteq> (now, ts)" using p Cons.prems(2) wdog_poll_work_done by auto
    then have "(now, ts) \<in> set polls" using Cons.prems(1) by simp
    from Cons.IH[OF this Cons.prems(2)] show ?thesis using False p by simp
  qed
qed

lemma filter_node_calls_not_resp: "filter is_node_call (map Node_not_resp ns) = map Node_not_resp ns"
  by (induction ns) (simp_all add: is_node_call_def)

lemma filter_node_calls_did_resp: "filter is_node_call (map Node_did_resp ns) = map Node_did_resp ns"
  by (induction ns) (simp_all add: is_node_call_def)

lemma calls_locked_not_resp:
  "calls_locked True (map Node_not_resp ns @ es) = calls_locked True es"
  by (induction ns) simp_all

lemma calls_locked_did_resp:
  "calls_locked True (map Node_did_resp ns @ es) = calls_locked True es"
  by (induction ns) simp_all

lemma names_in_failed_empty:
  "length (filter (\<lambda>t. state t = DSH_FAILED) ts) = 0 \<Longrightarrow> names_in DSH_FAILED ts = []"
  by (simp add: names_in_def)

lemma wdog_notify_calls:
  assumes "wdog_notify True w = Some evs" and "fail_cnt w = length (filter (\<lambda>t. state t = DSH_FAILED) (records w))"
  shows "filter is_node_call evs =
           map Node_not_resp (names_in DSH_FAILED (records w)) @ map Node_did_resp (names_in DSH_DONE (records w))
         \<and> calls_locked False evs"
proof (cases "fail_cnt w = 0")
  case True
  then have "names_in DSH_FAILED (records w) = []"
    using assms(2) names_in_failed_empty by simp
  then show ?thesis
    using assms(1) True
    by (auto simp add: wdog_notify_def Let_def filter_node_calls_did_resp is_node_call_def
        node_write_lock_def calls_locked_did_resp)
next
  case False
  then show ?thesis
    using assms(1)
    by (auto simp add: wdog_notify_def Let_def filter_node_calls_did_resp
        filter_node_calls_not_resp is_node_call_def node_write_lock_def
        calls_locked_did_resp calls_locked_not_resp)
qed

text \<open>
  \<open>wdog_loop_returns\<close> above: the poll loop ends when some poll finds no record new or
  active.

  Claim C4. When the watchdog returns (with \<open>AGENT_IS_THREAD\<close> set), the poll loop ended
  at the first poll that found no worker in state \<open>DSH_NEW\<close> or \<open>DSH_ACTIVE\<close>: every poll
  before it found one, and every worker is then \<open>DSH_DONE\<close> or \<open>DSH_FAILED\<close>. The calls
  of \<open>node_not_resp\<close> and \<open>node_did_resp\<close> it then makes are one \<open>node_not_resp\<close> for
  each failed worker, in the order of the array, followed by one \<open>node_did_resp\<close> for each
  worker that is done, in the order of the array; and each call is made inside a
  \<open>lock_slurmctld\<close> with the job and node write locks.
\<close>

theorem wdog_reconciles:
  assumes "wdog True CT polls = Some (ts, evs)"
  shows "(\<exists>ps now qs. polls = ps @ (now, ts) # qs \<and> (\<forall>p\<in>set ps. \<exists>t\<in>set (snd p). in_progress t))
       \<and> (\<forall>t\<in>set ts. state t = DSH_DONE \<or> state t = DSH_FAILED)
       \<and> filter is_node_call evs =
           map Node_not_resp (names_in DSH_FAILED ts) @ map Node_did_resp (names_in DSH_DONE ts)
       \<and> calls_locked False evs"
proof -
  from assms obtain w where l: "wdog_loop CT polls 0 = Some w"
    and n: "wdog_notify True w = Some evs" and r: "records w = ts"
    by (auto simp add: wdog_def split: option.splits)
  from wdog_loop_exit[OF l] obtain ps now qs md' where
    e: "polls = ps @ (now, records w) # qs"
    and b: "\<forall>p\<in>set ps. \<exists>t\<in>set (snd p). in_progress t"
    and w: "w = wdog_poll CT now (records w) md'"
    and d: "\<forall>t\<in>set (records w). \<not> in_progress t"
    by blast
  have f: "fail_cnt w = length (filter (\<lambda>t. state t = DSH_FAILED) (records w))"
    using w wdog_poll_fail_cnt[of CT now "records w" md'] by simp
  have fin: "\<forall>t\<in>set ts. state t = DSH_DONE \<or> state t = DSH_FAILED"
  proof
    fix t assume "t \<in> set ts"
    then have "\<not> in_progress t" using d r by simp
    then show "state t = DSH_DONE \<or> state t = DSH_FAILED"
      by (cases "state t") (simp_all add: in_progress_def)
  qed
  show ?thesis
    using e b r fin wdog_notify_calls[OF n f] by blast
qed


theorem wdog_reconciles_witness:
  "wdog True 5
     [(2, [\<lparr>state = DSH_ACTIVE, time = 1, slurm_addr = 7, node_name = ''n0''\<rparr>,
           \<lparr>state = DSH_NEW, time = 0, slurm_addr = 8, node_name = ''n1''\<rparr>,
           \<lparr>state = DSH_NEW, time = 0, slurm_addr = 9, node_name = ''n2''\<rparr>]),
      (4, [\<lparr>state = DSH_DONE, time = 1, slurm_addr = 7, node_name = ''n0''\<rparr>,
           \<lparr>state = DSH_FAILED, time = 1, slurm_addr = 8, node_name = ''n1''\<rparr>,
           \<lparr>state = DSH_DONE, time = 2, slurm_addr = 9, node_name = ''n2''\<rparr>])]
   = Some ([\<lparr>state = DSH_DONE, time = 1, slurm_addr = 7, node_name = ''n0''\<rparr>,
            \<lparr>state = DSH_FAILED, time = 1, slurm_addr = 8, node_name = ''n1''\<rparr>,
            \<lparr>state = DSH_DONE, time = 2, slurm_addr = 9, node_name = ''n2''\<rparr>],
           [Lock_slurmctld node_write_lock, Node_not_resp ''n1'', Unlock_slurmctld node_write_lock,
            Lock_slurmctld node_write_lock, Node_did_resp ''n0'', Node_did_resp ''n2'',
            Unlock_slurmctld node_write_lock, Debug_max_delay 2, Mutex_unlock])
   \<and> filter is_node_call
        [Lock_slurmctld node_write_lock, Node_not_resp ''n1'', Unlock_slurmctld node_write_lock,
         Lock_slurmctld node_write_lock, Node_did_resp ''n0'', Node_did_resp ''n2'',
         Unlock_slurmctld node_write_lock, Debug_max_delay 2, Mutex_unlock]
      = [Node_not_resp ''n1'', Node_did_resp ''n0'', Node_did_resp ''n2'']
   \<and> calls_locked False
        [Lock_slurmctld node_write_lock, Node_not_resp ''n1'', Unlock_slurmctld node_write_lock,
         Lock_slurmctld node_write_lock, Node_did_resp ''n0'', Node_did_resp ''n2'',
         Unlock_slurmctld node_write_lock, Debug_max_delay 2, Mutex_unlock]"
proof -
  have h: "wdog True 5
     [(2, [\<lparr>state = DSH_ACTIVE, time = 1, slurm_addr = 7, node_name = ''n0''\<rparr>,
           \<lparr>state = DSH_NEW, time = 0, slurm_addr = 8, node_name = ''n1''\<rparr>,
           \<lparr>state = DSH_NEW, time = 0, slurm_addr = 9, node_name = ''n2''\<rparr>]),
      (4, [\<lparr>state = DSH_DONE, time = 1, slurm_addr = 7, node_name = ''n0''\<rparr>,
           \<lparr>state = DSH_FAILED, time = 1, slurm_addr = 8, node_name = ''n1''\<rparr>,
           \<lparr>state = DSH_DONE, time = 2, slurm_addr = 9, node_name = ''n2''\<rparr>])]
   = Some ([\<lparr>state = DSH_DONE, time = 1, slurm_addr = 7, node_name = ''n0''\<rparr>,
            \<lparr>state = DSH_FAILED, time = 1, slurm_addr = 8, node_name = ''n1''\<rparr>,
            \<lparr>state = DSH_DONE, time = 2, slurm_addr = 9, node_name = ''n2''\<rparr>],
           [Lock_slurmctld node_write_lock, Node_not_resp ''n1'', Unlock_slurmctld node_write_lock,
            Lock_slurmctld node_write_lock, Node_did_resp ''n0'', Node_did_resp ''n2'',
            Unlock_slurmctld node_write_lock, Debug_max_delay 2, Mutex_unlock])"
    by (simp add: wdog_def wdog_poll_def wdog_notify_def names_in_def time_to_int_def
        double_to_int_def difftime_def INT_MIN_def INT_MAX_def)
  show ?thesis
    using wdog_reconciles[OF h] h by (simp add: names_in_def)
qed






section \<open>Properties of the threads together\<close>

lemma filter_update_count:
  "k < length xs \<Longrightarrow>
   length (filter P (xs[k := y])) + (if P (xs ! k) then 1 else 0)
     = length (filter P xs) + (if P y then 1 else 0)"
proof (induction xs arbitrary: k)
  case Nil
  then show ?case by simp
next
  case (Cons x xs)
  then show ?case by (cases k) auto
qed

lemma agent_inv_create:
  assumes "agent_inv N (a, i)" and "i < unat (thread_count a)" and "threads_active a < N"
  shows "agent_inv N (a\<lparr>threads_active := threads_active a + 1\<rparr>, Suc i)"
proof -
  have len: "i < length (thread_struct a)" using assms(1,2) by (simp add: agent_inv_def)
  have new: "state (thread_struct a ! i) = DSH_NEW" using assms(1) len by (simp add: agent_inv_def)
  have "unat (threads_active a) < unat N" using assms(3) by (simp add: word_less_nat_alt)
  moreover have "unat N < 2 ^ LENGTH(32)" by (rule unsigned_less)
  ultimately have "unat (threads_active a) + unat (1 :: u32) < 2 ^ LENGTH(32)" by simp
  then have "unat (threads_active a + 1) = unat (threads_active a) + unat (1 :: u32)"
    by (rule unat_add_lem[THEN iffD1])
  then have u: "unat (threads_active a + 1) = Suc (unat (threads_active a))" by simp
  have le: "threads_active a + 1 \<le> N" using assms(3) by (rule inc_le)
  have tk: "take (Suc i) (thread_struct a) = take i (thread_struct a) @ [thread_struct a ! i]"
    using len by (rule take_Suc_conv_app_nth)
  show ?thesis
    using assms(1) len new u le tk by (simp add: agent_inv_def in_progress_def)
qed

lemma agent_inv_start:
  assumes "agent_inv N (a, i)" and "k < i" and "state (thread_struct a ! k) = DSH_NEW"
  shows "agent_inv N (worker_start k now a, i)"
proof -
  let ?ts = "thread_struct a"
  let ?y = "(?ts ! k)\<lparr>state := DSH_ACTIVE, time := now\<rparr>"
  have ki: "k < length (take i ?ts)" using assms(1,2) by (simp add: agent_inv_def)
  have "length (filter in_progress ((take i ?ts)[k := ?y])) + (if in_progress (take i ?ts ! k) then 1 else 0)
        = length (filter in_progress (take i ?ts)) + (if in_progress ?y then 1 else 0)"
    using ki by (rule filter_update_count)
  then have cnt: "length (filter in_progress ((take i ?ts)[k := ?y])) = length (filter in_progress (take i ?ts))"
    using assms(2,3) by (simp add: in_progress_def)
  have rest: "\<forall>j. i \<le> j \<and> j < length ?ts \<longrightarrow> state ((?ts[k := ?y]) ! j) = DSH_NEW"
    using assms(1,2) by (simp add: agent_inv_def)
  show ?thesis
    using assms(1) cnt rest by (simp add: agent_inv_def worker_start_def take_update_swap)
qed

lemma agent_inv_finish:
  assumes "agent_inv N (a, i)" and "k < i" and "state (thread_struct a ! k) = DSH_ACTIVE"
    and "st = DSH_DONE \<or> st = DSH_FAILED"
  shows "agent_inv N (worker_finish k now st a, i)"
proof -
  let ?ts = "thread_struct a"
  let ?y = "(?ts ! k)\<lparr>state := st, time := double_to_time (difftime now (time (?ts ! k)))\<rparr>"
  have ki: "k < length (take i ?ts)" using assms(1,2) by (simp add: agent_inv_def)
  have "length (filter in_progress ((take i ?ts)[k := ?y])) + (if in_progress (take i ?ts ! k) then 1 else 0)
        = length (filter in_progress (take i ?ts)) + (if in_progress ?y then 1 else 0)"
    using ki by (rule filter_update_count)
  then have cnt: "length (filter in_progress ((take i ?ts)[k := ?y])) + 1 = length (filter in_progress (take i ?ts))"
    using assms(2,3,4) by (auto simp add: in_progress_def)
  have ua: "unat (threads_active a) = length (filter in_progress (take i ?ts))"
    using assms(1) by (simp add: agent_inv_def)
  then have nz: "threads_active a \<noteq> 0" using cnt by (auto simp add: unat_eq_0)
  have u: "unat (threads_active a - 1) = unat (threads_active a) - 1"
    using nz by (rule unat_minus_one)
  have "unat (threads_active a) \<le> unat N"
    using assms(1) by (simp add: agent_inv_def word_le_nat_alt)
  then have "unat (threads_active a - 1) \<le> unat N"
    using u by linarith
  then have le: "threads_active a - 1 \<le> N" by (simp add: word_le_nat_alt)
  have rest: "\<forall>j. i \<le> j \<and> j < length ?ts \<longrightarrow> state ((?ts[k := ?y]) ! j) = DSH_NEW"
    using assms(1,2) by (simp add: agent_inv_def)
  show ?thesis
    using assms(1) cnt ua u le rest
    by (simp add: agent_inv_def worker_finish_def take_update_swap)
qed

lemma rpc_thread_state_cases: "rpc_thread_state sock_err r = DSH_DONE \<or> rpc_thread_state sock_err r = DSH_FAILED"
  by (simp add: rpc_thread_state_def split: slurm_msg_type_t.splits)

lemma agent_run_inv:
  assumes "agent_run N s0 s" and "agent_inv N s0"
  shows "agent_inv N s"
  using assms
proof (induction rule: agent_run.induct)
  case run_init
  then show ?case by simp
next
  case (run_create s a i)
  then show ?case using agent_inv_create by simp
next
  case (run_start s a i k now)
  then show ?case using agent_inv_start by simp
next
  case (run_finish s a i k now sock_err r)
  then show ?case using agent_inv_finish rpc_thread_state_cases by simp
qed

lemma agent_init_inv:
  assumes "agent (Some arg) = Agent_started a0"
  shows "agent_inv N (a0, 0)"
proof -
  from assms obtain addrs names where "a0 = agent_init arg addrs names"
    by (auto simp add: agent_def split: option.splits if_splits)
  then show ?thesis by (simp add: agent_inv_def agent_init_def)
qed

lemma agent_run_final:
  assumes "agent_run N s s'" and "agent_inv N s"
    and "\<forall>t\<in>set (thread_struct (fst s)). \<not> in_progress t"
  shows "s' = s"
  using assms
proof (induction rule: agent_run.induct)
  case run_init
  then show ?case by simp
next
  case (run_create s a i)
  then have s: "s = (a, i)" by simp
  have "i < length (thread_struct a)" using run_create.hyps(2) run_create.prems(1) s
    by (simp add: agent_inv_def)
  moreover have "state (thread_struct a ! i) = DSH_NEW"
    using calculation run_create.prems(1) s by (simp add: agent_inv_def)
  ultimately have "in_progress (thread_struct a ! i) \<and> thread_struct a ! i \<in> set (thread_struct a)"
    by (simp add: in_progress_def)
  then show ?case using run_create.prems(2) s by auto
next
  case (run_start s a i k now)
  then have s: "s = (a, i)" by simp
  have "k < length (thread_struct a)" using run_start.hyps(2) run_start.prems(1) s
    by (simp add: agent_inv_def)
  then have "in_progress (thread_struct a ! k) \<and> thread_struct a ! k \<in> set (thread_struct a)"
    using run_start.hyps(3) by (simp add: in_progress_def)
  then show ?case using run_start.prems(2) s by auto
next
  case (run_finish s a i k now sock_err r)
  then have s: "s = (a, i)" by simp
  have "k < length (thread_struct a)" using run_finish.hyps(2) run_finish.prems(1) s
    by (simp add: agent_inv_def)
  then have "in_progress (thread_struct a ! k) \<and> thread_struct a ! k \<in> set (thread_struct a)"
    using run_finish.hyps(3) by (simp add: in_progress_def)
  then show ?case using run_finish.prems(2) s by auto
qed

text \<open>
  Claim C6. In every state an agent reaches from its initialisation, \<open>threads_active\<close> is at
  most \<open>AGENT_THREAD_COUNT\<close> and is the number of threads that were created and have not
  yet stored their result (so it never passes below zero); and in a state where a poll of
  the watchdog finds its work done, \<open>threads_active\<close> is 0 and no thread has a critical
  section left to run, so it is still 0 when the watchdog, which keeps the mutex from that
  poll on, returns.
\<close>

theorem threads_active_bounded:
  assumes "agent (Some arg) = Agent_started a0" and "agent_run N (a0, 0) (a, i)"
  shows "threads_active a \<le> N
       \<and> unat (threads_active a) = length (filter in_progress (take i (thread_struct a)))
       \<and> (work_done (wdog_poll CT now (thread_struct a) md) \<longrightarrow>
            threads_active a = 0 \<and> (\<forall>s'. agent_run N (a, i) s' \<longrightarrow> s' = (a, i)))"
proof -
  have inv: "agent_inv N (a, i)"
    using agent_run_inv[OF assms(2) agent_init_inv[OF assms(1)]] .
  have "work_done (wdog_poll CT now (thread_struct a) md) \<longrightarrow>
            threads_active a = 0 \<and> (\<forall>s'. agent_run N (a, i) s' \<longrightarrow> s' = (a, i))"
  proof
    assume "work_done (wdog_poll CT now (thread_struct a) md)"
    then have fin: "\<forall>t\<in>set (thread_struct a). \<not> in_progress t" by (simp add: wdog_poll_work_done)
    then have "\<forall>t\<in>set (take i (thread_struct a)). \<not> in_progress t" by (meson in_set_takeD)
    then have "filter in_progress (take i (thread_struct a)) = []" by (simp add: filter_empty_conv)
    then have "unat (threads_active a) = 0" using inv by (simp add: agent_inv_def)
    then have z: "threads_active a = 0" by (simp add: unat_eq_0)
    have "\<forall>s'. agent_run N (a, i) s' \<longrightarrow> s' = (a, i)"
      using agent_run_final[OF _ inv] fin by simp
    then show "threads_active a = 0 \<and> (\<forall>s'. agent_run N (a, i) s' \<longrightarrow> s' = (a, i))"
      using z by simp
  qed
  then show ?thesis using inv by (simp add: agent_inv_def)
qed

lemma one_worker_run:
  "agent_run 4
     (\<lparr>thread_count = 1, threads_active = 0,
       thread_struct = [\<lparr>state = DSH_NEW, time = 0, slurm_addr = 7, node_name = ''n0''\<rparr>],
       msg_type = REQUEST_PING, msg_args = 0\<rparr>, 0)
     (\<lparr>thread_count = 1, threads_active = 0,
       thread_struct = [\<lparr>state = DSH_DONE, time = 6, slurm_addr = 7, node_name = ''n0''\<rparr>],
       msg_type = REQUEST_PING, msg_args = 0\<rparr>, 1)"
proof -
  let ?a0 = "\<lparr>thread_count = 1, threads_active = 0,
       thread_struct = [\<lparr>state = DSH_NEW, time = 0, slurm_addr = 7, node_name = ''n0''\<rparr>],
       msg_type = REQUEST_PING, msg_args = 0\<rparr>"
  let ?r = "\<lparr>open_rc = 3, send_rc = 0, receive_rc = 0, shutdown_rc = 0,
       response_type = RESPONSE_SLURM_RC, return_code = 0\<rparr>"
  have s0: "agent_run 4 (?a0, 0) (?a0, 0)" by (rule run_init)
  have s1: "agent_run 4 (?a0, 0)
      (\<lparr>thread_count = 1, threads_active = 1,
       thread_struct = [\<lparr>state = DSH_NEW, time = 0, slurm_addr = 7, node_name = ''n0''\<rparr>],
       msg_type = REQUEST_PING, msg_args = 0\<rparr>, 1)"
    using run_create[OF s0] by simp
  have s2: "agent_run 4 (?a0, 0)
      (\<lparr>thread_count = 1, threads_active = 1,
       thread_struct = [\<lparr>state = DSH_ACTIVE, time = 2, slurm_addr = 7, node_name = ''n0''\<rparr>],
       msg_type = REQUEST_PING, msg_args = 0\<rparr>, 1)"
    using run_start[OF s1, of 0 2] by (simp add: worker_start_def)
  show ?thesis
    using run_finish[OF s2, of 0 8 "- 1" ?r]
    by (simp add: worker_finish_def rpc_thread_state_def double_to_time_def difftime_def
        LONG_MIN_def LONG_MAX_def)
qed

theorem threads_active_bounded_witness:
  "agent (Some \<lparr>addr_count = 1, arg_slurm_addr = Some [7], arg_node_names = Some [''n0''],
                 arg_msg_type = REQUEST_PING, arg_msg_args = 0\<rparr>)
     = Agent_started \<lparr>thread_count = 1, threads_active = 0,
         thread_struct = [\<lparr>state = DSH_NEW, time = 0, slurm_addr = 7, node_name = ''n0''\<rparr>],
         msg_type = REQUEST_PING, msg_args = 0\<rparr>
   \<and> threads_active \<lparr>thread_count = 1, threads_active = 0,
         thread_struct = [\<lparr>state = DSH_DONE, time = 6, slurm_addr = 7, node_name = ''n0''\<rparr>],
         msg_type = REQUEST_PING, msg_args = 0\<rparr> \<le> (4 :: u32)
   \<and> work_done (wdog_poll 5 8 [\<lparr>state = DSH_DONE, time = 6, slurm_addr = 7, node_name = ''n0''\<rparr>] 0)"
proof -
  have h: "agent (Some \<lparr>addr_count = 1, arg_slurm_addr = Some [7], arg_node_names = Some [''n0''],
                 arg_msg_type = REQUEST_PING, arg_msg_args = 0\<rparr>)
     = Agent_started \<lparr>thread_count = 1, threads_active = 0,
         thread_struct = [\<lparr>state = DSH_NEW, time = 0, slurm_addr = 7, node_name = ''n0''\<rparr>],
         msg_type = REQUEST_PING, msg_args = 0\<rparr>"
    by (simp add: agent_def agent_init_def)
  have w: "work_done (wdog_poll 5 8 [\<lparr>state = DSH_DONE, time = 6, slurm_addr = 7, node_name = ''n0''\<rparr>] 0)"
    by (simp add: wdog_poll_def)
  show ?thesis
    using threads_active_bounded[OF h one_worker_run, of 5 8 0] h w by simp
qed


section \<open>Properties of the bookkeeping\<close>

lemma user_chain_pos_Some:
  "user_chain_pos uid us = Some p \<Longrightarrow> p < length us \<and> u_user_id (us ! p) = uid"
proof (induction us arbitrary: p)
  case Nil
  then show ?case by simp
next
  case (Cons u us)
  then show ?case by (auto split: if_splits)
qed

lemma user_chain_pos_None:
  "user_chain_pos uid us = None \<longleftrightarrow> uid \<notin> u_user_id ` set us"
  by (induction us) auto

text \<open>Sums over the buckets of a table.\<close>

lemma sum_buckets:
  "sum_list (map g (concat (map f [0..<n]))) = (\<Sum>b = 0..<n. sum_list (map g (f b)))"
  by (induction n) simp_all

lemma sum_buckets_upd:
  fixes g :: "'a \<Rightarrow> nat"
  assumes "i < n"
  shows "sum_list (map g (concat (map (f(i := xs)) [0..<n]))) + sum_list (map g (f i))
       = sum_list (map g (concat (map f [0..<n]))) + sum_list (map g xs)"
proof -
  have fin: "finite {0..<n}" and mem: "i \<in> {0..<n}" using assms by simp_all
  have a: "(\<Sum>b = 0..<n. sum_list (map g ((f(i := xs)) b)))
         = sum_list (map g xs) + (\<Sum>b \<in> {0..<n} - {i}. sum_list (map g ((f(i := xs)) b)))"
    using sum.remove[OF fin mem, of "\<lambda>b. sum_list (map g ((f(i := xs)) b))"] by simp
  have b: "(\<Sum>b = 0..<n. sum_list (map g (f b)))
         = sum_list (map g (f i)) + (\<Sum>b \<in> {0..<n} - {i}. sum_list (map g (f b)))"
    using sum.remove[OF fin mem, of "\<lambda>b. sum_list (map g (f b))"] by simp
  have c: "(\<Sum>b \<in> {0..<n} - {i}. sum_list (map g ((f(i := xs)) b)))
         = (\<Sum>b \<in> {0..<n} - {i}. sum_list (map g (f b)))"
    by (rule sum.cong) simp_all
  show ?thesis unfolding sum_buckets using a b c by simp
qed

lemma sum_list_update_nat:
  fixes g :: "'a \<Rightarrow> nat"
  assumes "p < length xs"
  shows "sum_list (map g (xs[p := y])) + g (xs ! p) = sum_list (map g xs) + g y"
  using assms
proof (induction xs arbitrary: p)
  case Nil
  then show ?case by simp
next
  case (Cons x xs)
  then show ?case by (cases p) auto
qed

text \<open>The chain of the user.\<close>

lemma chain_upd_ids:
  "map u_user_id (chain_upd F uid us) =
     (if uid \<in> u_user_id ` set us then map u_user_id us else uid # map u_user_id us)"
proof (cases "user_chain_pos uid us")
  case None
  then show ?thesis using user_chain_pos_None[of uid us] by (simp add: chain_upd_def)
next
  case (Some p)
  then have p: "p < length us" "u_user_id (us ! p) = uid" using user_chain_pos_Some by auto
  then have "uid \<in> u_user_id ` set us" by (metis imageI nth_mem)
  moreover have "map u_user_id (us[p := (us ! p)\<lparr>u_size := F (u_size (us ! p))\<rparr>]) = map u_user_id us"
    using p by (simp add: map_update list_update_same_conv)
  ultimately show ?thesis using Some by (simp add: chain_upd_def)
qed

lemma chain_upd_distinct:
  "distinct (map u_user_id us) \<Longrightarrow> distinct (map u_user_id (chain_upd F uid us))"
  by (auto simp add: chain_upd_ids)

lemma chain_upd_member:
  assumes "distinct (map u_user_id us)" and "u \<in> set (chain_upd F uid us)"
  shows "(u_user_id u = uid \<and> u_size u = F (chain_load uid us)) \<or> (u_user_id u \<noteq> uid \<and> u \<in> set us)"
proof (cases "user_chain_pos uid us")
  case None
  then have "uid \<notin> u_user_id ` set us" using user_chain_pos_None by simp
  then show ?thesis using None assms(2) by (auto simp add: chain_upd_def chain_load_def)
next
  case (Some p)
  then have p: "p < length us" "u_user_id (us ! p) = uid" using user_chain_pos_Some by auto
  let ?u' = "(us ! p)\<lparr>u_size := F (u_size (us ! p))\<rparr>"
  from assms(2) Some have "u \<in> set (us[p := ?u'])" by (simp add: chain_upd_def)
  then obtain q where q: "q < length us" "u = (us[p := ?u']) ! q"
    by (metis in_set_conv_nth length_list_update)
  show ?thesis
  proof (cases "q = p")
    case True
    then show ?thesis using q p Some by (simp add: chain_load_def)
  next
    case False
    then have u: "u = us ! q" using q by simp
    have "u_user_id (us ! q) \<noteq> u_user_id (us ! p)"
      using assms(1) False q(1) p(1) by (metis distinct_conv_nth length_map nth_map)
    then show ?thesis using u p q(1) by simp
  qed
qed

lemma chain_upd_sum:
  "sum_list (map (\<lambda>u. unat (u_size u)) (chain_upd F uid us)) + unat (chain_load uid us)
     = sum_list (map (\<lambda>u. unat (u_size u)) us) + unat (F (chain_load uid us))"
proof (cases "user_chain_pos uid us")
  case None
  then show ?thesis by (simp add: chain_upd_def chain_load_def)
next
  case (Some p)
  then have p: "p < length us" using user_chain_pos_Some by auto
  show ?thesis
    using sum_list_update_nat[OF p, of "\<lambda>u. unat (u_size u)" "(us ! p)\<lparr>u_size := F (u_size (us ! p))\<rparr>"] Some
    by (simp add: chain_upd_def chain_load_def)
qed

lemma chain_upd_load: "chain_load uid (chain_upd F uid us) = F (chain_load uid us)"
proof (cases "user_chain_pos uid us")
  case None
  then show ?thesis by (simp add: chain_upd_def chain_load_def)
next
  case (Some p)
  then have p: "p < length us" "u_user_id (us ! p) = uid" using user_chain_pos_Some by auto
  let ?us' = "us[p := (us ! p)\<lparr>u_size := F (u_size (us ! p))\<rparr>]"
  have pos: "user_chain_pos uid ?us' = Some p"
    using Some
  proof (induction us arbitrary: p)
    case Nil
    then show ?case by simp
  next
    case (Cons x xs)
    then show ?case by (cases p) (auto split: if_splits)
  qed
  show ?thesis using Some pos p by (simp add: chain_upd_def chain_load_def)
qed

lemma bb_add_user_load_chain:
  assumes "bb_uhash st = Some tu"
  shows "bb_add_user_load hsz a st =
     Some (st\<lparr>used_space := used_space st + a_size a,
              bb_uhash := Some (tu(unat (a_user_id a) mod hsz :=
                chain_upd (\<lambda>s. s + a_size a) (a_user_id a) (tu (unat (a_user_id a) mod hsz))))\<rparr>)"
  using assms
  by (auto simp add: bb_add_user_load_def bb_find_user_rec_def chain_upd_def Let_def
      split: option.splits)

lemma bb_remove_user_load_chain:
  assumes "bb_uhash st = Some tu"
  shows "bb_remove_user_load hsz a st =
     Some (st\<lparr>used_space := (if a_size a \<le> used_space st then used_space st - a_size a else 0),
              bb_uhash := Some (tu(unat (a_user_id a) mod hsz :=
                chain_upd (\<lambda>s. if a_size a \<le> s then s - a_size a else 0) (a_user_id a)
                  (tu (unat (a_user_id a) mod hsz))))\<rparr>)"
  using assms
  by (auto simp add: bb_remove_user_load_def bb_find_user_rec_def chain_upd_def Let_def
      split: option.splits)


text \<open>The totals of the records charged.\<close>

lemma total_size_Cons: "total_size (a # as) = unat (a_size a) + total_size as"
  by (simp add: total_size_def)

lemma total_size_remove1:
  "a \<in> set as \<Longrightarrow> total_size as = unat (a_size a) + total_size (remove1 a as)"
  unfolding total_size_def by (rule sum_list_map_remove1)

lemma total_size_allocs_of_le: "total_size (allocs_of uid as) \<le> total_size as"
  unfolding total_size_def allocs_of_def by (rule sum_list_filter_le_nat)

lemma allocs_of_Cons:
  "allocs_of uid (a # as) = (if a_user_id a = uid then a # allocs_of uid as else allocs_of uid as)"
  by (simp add: allocs_of_def)

lemma allocs_of_remove1:
  "allocs_of uid (remove1 a as) = (if a_user_id a = uid then remove1 a (allocs_of uid as) else allocs_of uid as)"
proof (cases "a_user_id a = uid")
  case True
  then show ?thesis by (simp add: allocs_of_def filter_remove1)
next
  case False
  have "filter (\<lambda>x. a_user_id x = uid) (remove1 a as) = filter (\<lambda>x. a_user_id x = uid) as"
    using False by (induction as) auto
  then show ?thesis using False by (simp add: allocs_of_def)
qed

lemma bb_inv_chain_load:
  assumes "0 < hsz" and "bb_inv hsz st live" and "bb_uhash st = Some tu"
  shows "unat (chain_load uid (tu (unat uid mod hsz))) = total_size (allocs_of uid live)"
proof (cases "user_chain_pos uid (tu (unat uid mod hsz))")
  case None
  then have no: "uid \<notin> u_user_id ` set (tu (unat uid mod hsz))" using user_chain_pos_None by simp
  have "allocs_of uid live = []"
  proof (rule ccontr)
    assume "allocs_of uid live \<noteq> []"
    then obtain a where a: "a \<in> set live" "a_user_id a = uid"
      by (auto simp add: allocs_of_def filter_empty_conv)
    then have "uid \<in> u_user_id ` set (tu (unat uid mod hsz))"
      using assms(2,3) by (auto simp add: bb_inv_def)
    then show False using no by simp
  qed
  then show ?thesis using None by (simp add: chain_load_def total_size_def)
next
  case (Some p)
  then have p: "p < length (tu (unat uid mod hsz))" "u_user_id (tu (unat uid mod hsz) ! p) = uid"
    using user_chain_pos_Some by auto
  have b: "unat uid mod hsz < hsz" using assms(1) by simp
  have "tu (unat uid mod hsz) ! p \<in> set (tu (unat uid mod hsz))" using p(1) by simp
  then have "unat (u_size (tu (unat uid mod hsz) ! p))
             = total_size (allocs_of (u_user_id (tu (unat uid mod hsz) ! p)) live)"
    using assms(2,3) b by (auto simp add: bb_inv_def)
  then show ?thesis using Some p by (simp add: chain_load_def)
qed

lemma users_total_upd:
  assumes "bb_uhash st = Some tu" and "i < hsz"
  shows "users_total hsz (st\<lparr>used_space := x, bb_uhash := Some (tu(i := c))\<rparr>)
           + sum_list (map (\<lambda>u. unat (u_size u)) (tu i))
         = users_total hsz st + sum_list (map (\<lambda>u. unat (u_size u)) c)"
  using assms sum_buckets_upd[OF assms(2), of "\<lambda>u. unat (u_size u)" tu c]
  by (simp add: users_total_def all_users_def)

lemma bb_inv_step:
  assumes hsz: "0 < hsz" and inv: "bb_inv hsz st live" and tu: "bb_uhash st = Some tu"
    and inx: "inx = unat uid mod hsz"
    and st': "st' = st\<lparr>used_space := x, bb_uhash := Some (tu(inx := chain_upd F uid (tu inx)))\<rparr>"
    and load: "unat (F (chain_load uid (tu inx))) = total_size (allocs_of uid live')"
    and others: "\<forall>uid'. uid' \<noteq> uid \<longrightarrow> allocs_of uid' live' = allocs_of uid' live"
    and mem: "\<forall>a\<in>set live'. a_user_id a = uid \<or> a \<in> set live"
    and used: "unat x = total_size live'"
    and fit: "total_size live' < 2 ^ 32"
    and tot: "total_size live' + total_size (allocs_of uid live) = total_size live + total_size (allocs_of uid live')"
  shows "bb_inv hsz st' live'"
proof -
  let ?c = "tu inx" and ?c' = "chain_upd F uid (tu inx)"
  let ?tu' = "tu(inx := ?c')"
  have b: "inx < hsz" using hsz inx by simp
  from inv tu obtain ta where ta: "bb_hash st = Some ta"
    and bucket: "\<forall>b<hsz. \<forall>u\<in>set (tu b). unat (u_user_id u) mod hsz = b"
    and dist: "\<forall>b<hsz. distinct (map u_user_id (tu b))"
    and sizes: "\<forall>b<hsz. \<forall>u\<in>set (tu b). unat (u_size u) = total_size (allocs_of (u_user_id u) live)"
    and cover: "\<forall>a\<in>set live. a_user_id a \<in> u_user_id ` set (tu (unat (a_user_id a) mod hsz))"
    and ut: "users_total hsz st = total_size live"
    by (auto simp add: bb_inv_def)
  have dc: "distinct (map u_user_id ?c)" using dist b by simp
  have old: "unat (chain_load uid ?c) = total_size (allocs_of uid live)"
    using bb_inv_chain_load[OF hsz inv tu, of uid] inx by simp
  have ids: "u_user_id ` set ?c' = insert uid (u_user_id ` set ?c)"
  proof -
    have "set (map u_user_id ?c') = insert uid (set (map u_user_id ?c))"
      by (auto simp add: chain_upd_ids)
    then show ?thesis by simp
  qed
  have m: "\<And>u. u \<in> set ?c' \<Longrightarrow>
      (u_user_id u = uid \<and> u_size u = F (chain_load uid ?c)) \<or> (u_user_id u \<noteq> uid \<and> u \<in> set ?c)"
    using chain_upd_member[OF dc] by blast
  have bucket': "\<forall>b<hsz. \<forall>u\<in>set (?tu' b). unat (u_user_id u) mod hsz = b"
  proof (intro allI impI ballI)
    fix b u assume bb: "b < hsz" and u: "u \<in> set (?tu' b)"
    show "unat (u_user_id u) mod hsz = b"
    proof (cases "b = inx")
      case True
      then have "u \<in> set ?c'" using u by simp
      then show ?thesis using m[of u] bucket b True inx by auto
    next
      case False
      then show ?thesis using u bucket bb by simp
    qed
  qed
  have dist': "\<forall>b<hsz. distinct (map u_user_id (?tu' b))"
    using dist chain_upd_distinct[OF dc] by simp
  have sizes': "\<forall>b<hsz. \<forall>u\<in>set (?tu' b). unat (u_size u) = total_size (allocs_of (u_user_id u) live')"
  proof (intro allI impI ballI)
    fix b u assume bb: "b < hsz" and u: "u \<in> set (?tu' b)"
    show "unat (u_size u) = total_size (allocs_of (u_user_id u) live')"
    proof (cases "b = inx")
      case True
      then have "u \<in> set ?c'" using u by simp
      then consider "u_user_id u = uid \<and> u_size u = F (chain_load uid ?c)"
        | "u_user_id u \<noteq> uid \<and> u \<in> set ?c" using m[of u] by blast
      then show ?thesis
      proof cases
        case 1
        then show ?thesis using load by simp
      next
        case 2
        then have "unat (u_size u) = total_size (allocs_of (u_user_id u) live)" using sizes b by simp
        then show ?thesis using 2 others by simp
      qed
    next
      case False
      then have ub: "u \<in> set (tu b)" using u by simp
      then have h: "unat (u_user_id u) mod hsz = b" using bucket bb by simp
      then have "u_user_id u \<noteq> uid" using False inx by auto
      then show ?thesis using sizes bb ub others by simp
    qed
  qed
  have cover': "\<forall>a\<in>set live'. a_user_id a \<in> u_user_id ` set (?tu' (unat (a_user_id a) mod hsz))"
  proof
    fix a assume a: "a \<in> set live'"
    show "a_user_id a \<in> u_user_id ` set (?tu' (unat (a_user_id a) mod hsz))"
    proof (cases "a_user_id a = uid")
      case True
      then show ?thesis using ids inx by simp
    next
      case False
      then have "a \<in> set live" using mem a by blast
      then have c: "a_user_id a \<in> u_user_id ` set (tu (unat (a_user_id a) mod hsz))" using cover by simp
      show ?thesis
      proof (cases "unat (a_user_id a) mod hsz = inx")
        case True
        then show ?thesis using c ids by simp
      next
        case False
        then show ?thesis using c by simp
      qed
    qed
  qed
  have "users_total hsz st' + sum_list (map (\<lambda>u. unat (u_size u)) ?c)
        = users_total hsz st + sum_list (map (\<lambda>u. unat (u_size u)) ?c')"
    using users_total_upd[OF tu b, where x = x and c = ?c'] st' by simp
  moreover have "sum_list (map (\<lambda>u. unat (u_size u)) ?c') + unat (chain_load uid ?c)
        = sum_list (map (\<lambda>u. unat (u_size u)) ?c) + unat (F (chain_load uid ?c))"
    by (rule chain_upd_sum)
  ultimately have ut': "users_total hsz st' = total_size live'"
    using ut old load tot by linarith
  have "bb_hash st' = Some ta" "bb_uhash st' = Some ?tu'" "unat (used_space st') = total_size live'"
    using st' ta used by simp_all
  then show ?thesis
    unfolding bb_inv_def using bucket' dist' sizes' cover' ut' fit by blast
qed


lemma bb_inv_add:
  assumes hsz: "0 < hsz" and inv: "bb_inv hsz st live" and fit: "total_size (a # live) < 2 ^ 32"
  shows "\<exists>st'. bb_add_user_load hsz a st = Some st' \<and> bb_inv hsz st' (a # live)
           \<and> bb_hash st' = bb_hash st"
proof -
  from inv obtain tu where tu: "bb_uhash st = Some tu" by (auto simp add: bb_inv_def)
  let ?uid = "a_user_id a" and ?sz = "a_size a"
  let ?inx = "unat ?uid mod hsz"
  let ?F = "\<lambda>s. s + ?sz"
  let ?st' = "st\<lparr>used_space := used_space st + ?sz,
                  bb_uhash := Some (tu(?inx := chain_upd ?F ?uid (tu ?inx)))\<rparr>"
  have run: "bb_add_user_load hsz a st = Some ?st'" by (rule bb_add_user_load_chain[OF tu])
  have old: "unat (chain_load ?uid (tu ?inx)) = total_size (allocs_of ?uid live)"
    by (rule bb_inv_chain_load[OF hsz inv tu])
  have us: "unat (used_space st) = total_size live" using inv by (auto simp add: bb_inv_def)
  have le: "total_size (allocs_of ?uid live) \<le> total_size live" by (rule total_size_allocs_of_le)
  have f: "unat ?sz + total_size live < 2 ^ LENGTH(32)" using fit by (simp add: total_size_Cons)
  have "unat (chain_load ?uid (tu ?inx)) + unat ?sz < 2 ^ LENGTH(32)" using old le f by linarith
  then have "unat (chain_load ?uid (tu ?inx) + ?sz) = unat (chain_load ?uid (tu ?inx)) + unat ?sz"
    by (rule unat_add_lem[THEN iffD1])
  then have load: "unat (?F (chain_load ?uid (tu ?inx))) = total_size (allocs_of ?uid (a # live))"
    using old by (simp add: allocs_of_Cons total_size_Cons)
  have "unat (used_space st) + unat ?sz < 2 ^ LENGTH(32)" using us f by linarith
  then have "unat (used_space st + ?sz) = unat (used_space st) + unat ?sz"
    by (rule unat_add_lem[THEN iffD1])
  then have used: "unat (used_space st + ?sz) = total_size (a # live)"
    using us by (simp add: total_size_Cons)
  have others: "\<forall>uid'. uid' \<noteq> ?uid \<longrightarrow> allocs_of uid' (a # live) = allocs_of uid' live"
    by (simp add: allocs_of_Cons)
  have mem: "\<forall>x\<in>set (a # live). a_user_id x = ?uid \<or> x \<in> set live" by simp
  have tot: "total_size (a # live) + total_size (allocs_of ?uid live)
             = total_size live + total_size (allocs_of ?uid (a # live))"
    by (simp add: allocs_of_Cons total_size_Cons)
  have "bb_inv hsz ?st' (a # live)"
    by (rule bb_inv_step[where F = ?F and uid = ?uid and live' = "a # live",
          OF hsz inv tu refl refl load others mem used fit tot])
  then show ?thesis using run by simp
qed

lemma bb_inv_remove:
  assumes hsz: "0 < hsz" and inv: "bb_inv hsz st live" and a: "a \<in> set live"
  shows "\<exists>st'. bb_remove_user_load hsz a st = Some st' \<and> bb_inv hsz st' (remove1 a live)
           \<and> bb_hash st' = bb_hash st"
proof -
  from inv obtain tu where tu: "bb_uhash st = Some tu" by (auto simp add: bb_inv_def)
  let ?uid = "a_user_id a" and ?sz = "a_size a"
  let ?inx = "unat ?uid mod hsz"
  let ?F = "\<lambda>s. if ?sz \<le> s then s - ?sz else 0"
  let ?x = "if ?sz \<le> used_space st then used_space st - ?sz else 0"
  let ?st' = "st\<lparr>used_space := ?x, bb_uhash := Some (tu(?inx := chain_upd ?F ?uid (tu ?inx)))\<rparr>"
  have run: "bb_remove_user_load hsz a st = Some ?st'" by (rule bb_remove_user_load_chain[OF tu])
  have old: "unat (chain_load ?uid (tu ?inx)) = total_size (allocs_of ?uid live)"
    by (rule bb_inv_chain_load[OF hsz inv tu])
  have us: "unat (used_space st) = total_size live" and fit: "total_size live < 2 ^ 32"
    using inv by (auto simp add: bb_inv_def)
  have t: "total_size live = unat ?sz + total_size (remove1 a live)"
    using a by (rule total_size_remove1)
  have "a \<in> set (allocs_of ?uid live)" using a by (simp add: allocs_of_def)
  then have tu': "total_size (allocs_of ?uid live) = unat ?sz + total_size (remove1 a (allocs_of ?uid live))"
    by (rule total_size_remove1)
  have l1: "?sz \<le> chain_load ?uid (tu ?inx)" using old tu' by (simp add: word_le_nat_alt)
  then have "unat (chain_load ?uid (tu ?inx) - ?sz) = unat (chain_load ?uid (tu ?inx)) - unat ?sz"
    by (rule unat_sub)
  then have load: "unat (?F (chain_load ?uid (tu ?inx))) = total_size (allocs_of ?uid (remove1 a live))"
    using l1 old tu' by (simp add: allocs_of_remove1)
  have l2: "?sz \<le> used_space st" using us t by (simp add: word_le_nat_alt)
  then have "unat (used_space st - ?sz) = unat (used_space st) - unat ?sz" by (rule unat_sub)
  then have used: "unat ?x = total_size (remove1 a live)" using l2 us t by simp
  have others: "\<forall>uid'. uid' \<noteq> ?uid \<longrightarrow> allocs_of uid' (remove1 a live) = allocs_of uid' live"
    by (simp add: allocs_of_remove1)
  have mem: "\<forall>x\<in>set (remove1 a live). a_user_id x = ?uid \<or> x \<in> set live"
    using set_remove1_subset[of a live] by blast
  have fit': "total_size (remove1 a live) < 2 ^ 32" using fit t by linarith
  have tot: "total_size (remove1 a live) + total_size (allocs_of ?uid live)
             = total_size live + total_size (allocs_of ?uid (remove1 a live))"
    using t tu' by (simp add: allocs_of_remove1)
  have "bb_inv hsz ?st' (remove1 a live)"
    by (rule bb_inv_step[where F = ?F and uid = ?uid and live' = "remove1 a live",
          OF hsz inv tu refl refl load others mem used fit' tot])
  then show ?thesis using run by simp
qed

lemma new_job_rec_boost:
  "new_job_rec (boost_priority NICE_OFFSET boost job) bb_size t_state t_seen
     = new_job_rec job bb_size t_state t_seen"
  by (simp add: new_job_rec_def boost_priority_def Let_def split: option.splits)

lemma boost_priority_user: "j_user_id (boost_priority NICE_OFFSET boost job) = j_user_id job"
  by (simp add: boost_priority_def Let_def split: option.splits)

lemma bb_inv_hash:
  "bb_inv hsz st live \<Longrightarrow> bb_inv hsz (st\<lparr>bb_hash := Some t\<rparr>) live"
  by (simp add: bb_inv_def users_total_def all_users_def)

lemma all_allocs_insert:
  fixes g :: "bb_alloc_t \<Rightarrow> nat"
  assumes "bb_hash st = Some ta" and "i < hsz"
  shows "sum_list (map g (all_allocs hsz (st\<lparr>bb_hash := Some (ta(i := r # ta i))\<rparr>)))
         = g r + sum_list (map g (all_allocs hsz st))"
  using assms sum_buckets_upd[OF assms(2), of g ta "r # ta i"]
  by (simp add: all_allocs_def)

lemma bb_inv_alloc_job:
  assumes hsz: "0 < hsz" and inv: "bb_inv hsz st live"
    and fit: "total_size (new_job_rec job bb_size t_state t_seen # live) < 2 ^ 32"
  shows "\<exists>st' job'. bb_alloc_job hsz NICE_OFFSET st (Some job) bb_size t_state t_seen
             = Some (st', job', new_job_rec job bb_size t_state t_seen)
           \<and> bb_inv hsz st' (new_job_rec job bb_size t_state t_seen # live)
           \<and> (\<forall>g :: bb_alloc_t \<Rightarrow> nat. sum_list (map g (all_allocs hsz st'))
                 = g (new_job_rec job bb_size t_state t_seen) + sum_list (map g (all_allocs hsz st)))"
proof -
  from inv obtain ta where ta: "bb_hash st = Some ta" by (auto simp add: bb_inv_def)
  let ?job = "boost_priority NICE_OFFSET (prio_boost_use (bb_config st)) job"
  let ?r = "new_job_rec job bb_size t_state t_seen"
  let ?i = "unat (j_user_id job) mod hsz"
  let ?st1 = "st\<lparr>bb_hash := Some (ta(?i := ?r # ta ?i))\<rparr>"
  have i: "?i < hsz" using hsz by simp
  have rec: "bb_alloc_job_rec hsz st (Some ?job) bb_size t_state t_seen = Some (?st1, ?r)"
    using ta by (simp add: bb_alloc_job_rec_def new_job_rec_boost boost_priority_user Let_def)
  have inv1: "bb_inv hsz ?st1 live" using inv by (rule bb_inv_hash)
  from bb_inv_add[OF hsz inv1 fit] obtain st' where
    add: "bb_add_user_load hsz ?r ?st1 = Some st'" and inv': "bb_inv hsz st' (?r # live)"
    and h: "bb_hash st' = bb_hash ?st1" by blast
  have same: "all_allocs hsz st' = all_allocs hsz ?st1" using h by (simp add: all_allocs_def)
  have sums: "\<forall>g :: bb_alloc_t \<Rightarrow> nat. sum_list (map g (all_allocs hsz st'))
                 = g ?r + sum_list (map g (all_allocs hsz st))"
    using all_allocs_insert[OF ta i] same by simp
  have "bb_alloc_job hsz NICE_OFFSET st (Some job) bb_size t_state t_seen = Some (st', Some ?job, ?r)"
    using rec add by (simp add: bb_alloc_job_def Let_def)
  then show ?thesis using inv' sums by blast
qed

lemma bb_inv_init:
  assumes "used_space st0 = 0"
  shows "bb_inv hsz (bb_alloc_cache st0) []"
proof -
  have "concat (map (\<lambda>i. []) [0..<hsz]) = ([] :: bb_user_t list)" by (induction hsz) simp_all
  then show ?thesis using assms
    by (simp add: bb_inv_def bb_alloc_cache_def users_total_def all_users_def total_size_def allocs_of_def)
qed

lemma bb_calls_exec_inv:
  assumes "0 < hsz" and "bb_inv hsz st live" and "charged calls live = Some live'"
  shows "\<exists>st'. bb_calls_exec hsz NICE_OFFSET calls st = Some st' \<and> bb_inv hsz st' live'"
  using assms(2,3)
proof (induction calls arbitrary: st live)
  case Nil
  then show ?case by simp
next
  case (Cons c calls)
  show ?case
  proof (cases c)
    case (Alloc_job job bb_size t_state t_seen)
    let ?r = "new_job_rec job bb_size t_state t_seen"
    from Cons.prems(2) Alloc_job have fit: "total_size (?r # live) < 2 ^ 32"
      and rest: "charged calls (?r # live) = Some live'"
      by (auto simp add: Let_def split: if_splits)
    from bb_inv_alloc_job[OF assms(1) Cons.prems(1) fit, of NICE_OFFSET] obtain st1 job' where
      run: "bb_alloc_job hsz NICE_OFFSET st (Some job) bb_size t_state t_seen = Some (st1, job', ?r)"
      and inv1: "bb_inv hsz st1 (?r # live)" by blast
    from Cons.IH[OF inv1 rest] show ?thesis
      using run Alloc_job by (simp add: bb_call_exec_def)
  next
    case (Remove_load a)
    from Cons.prems(2) Remove_load have a: "a \<in> set live"
      and rest: "charged calls (remove1 a live) = Some live'"
      by (auto split: if_splits)
    from bb_inv_remove[OF assms(1) Cons.prems(1) a] obtain st1 where
      run: "bb_remove_user_load hsz a st = Some st1" and inv1: "bb_inv hsz st1 (remove1 a live)"
      by blast
    from Cons.IH[OF inv1 rest] show ?thesis
      using run Remove_load by (simp add: bb_call_exec_def)
  qed
qed


lemma total_size_allocs_of_sum:
  "total_size (allocs_of uid as) = sum_list (map (\<lambda>a. if a_user_id a = uid then unat (a_size a) else 0) as)"
  by (induction as) (simp_all add: total_size_def allocs_of_def)

lemma bb_calls_exec_alloc_only:
  assumes "0 < hsz" and "bb_inv hsz st live"
    and "\<forall>g :: bb_alloc_t \<Rightarrow> nat. sum_list (map g (all_allocs hsz st)) = sum_list (map g live)"
    and "charged calls live = Some live'" and "\<forall>c\<in>set calls. is_alloc_call c"
  shows "\<exists>st'. bb_calls_exec hsz NICE_OFFSET calls st = Some st'
           \<and> (\<forall>g :: bb_alloc_t \<Rightarrow> nat. sum_list (map g (all_allocs hsz st')) = sum_list (map g live'))"
  using assms(2,3,4,5)
proof (induction calls arbitrary: st live)
  case Nil
  then show ?case by simp
next
  case (Cons c calls)
  from Cons.prems(4) obtain job bb_size t_state t_seen where c: "c = Alloc_job job bb_size t_state t_seen"
    by (cases c) (simp_all add: is_alloc_call_def)
  let ?r = "new_job_rec job bb_size t_state t_seen"
  from Cons.prems(3) c have fit: "total_size (?r # live) < 2 ^ 32"
    and rest: "charged calls (?r # live) = Some live'"
    by (auto simp add: Let_def split: if_splits)
  from bb_inv_alloc_job[OF assms(1) Cons.prems(1) fit, of NICE_OFFSET] obtain st1 job' where
    run: "bb_alloc_job hsz NICE_OFFSET st (Some job) bb_size t_state t_seen = Some (st1, job', ?r)"
    and inv1: "bb_inv hsz st1 (?r # live)"
    and sums: "\<forall>g :: bb_alloc_t \<Rightarrow> nat. sum_list (map g (all_allocs hsz st1))
                 = g ?r + sum_list (map g (all_allocs hsz st))" by blast
  have m1: "\<forall>g :: bb_alloc_t \<Rightarrow> nat. sum_list (map g (all_allocs hsz st1)) = sum_list (map g (?r # live))"
    using sums Cons.prems(2) by simp
  have only: "\<forall>c\<in>set calls. is_alloc_call c" using Cons.prems(4) by simp
  from Cons.IH[OF inv1 m1 rest only] show ?case
    using run c by (simp add: bb_call_exec_def)
qed

lemma user_load_chain:
  "bb_uhash st = Some tu \<Longrightarrow> user_load hsz st uid = chain_load uid (tu (unat uid mod hsz))"
  by (simp add: user_load_def chain_load_def)

text \<open>
  Claim C8, as the code has it. Start from an empty cache with \<open>used_space = 0\<close> and make
  any sequence of calls of \<open>bb_alloc_job\<close> and of \<open>bb_remove_user_load\<close> in which every
  record removed is one that was allocated and whose load is still charged, the sizes
  charged never passing \<open>2\<^sup>3\<^sup>2 - 1\<close> in total (this is \<open>charged calls [] = Some live\<close>, and
  \<open>live\<close> are the records charged at the end). Then every call returns, \<open>used_space\<close> is
  the sum of the sizes of all user records, and the size of every user record is the sum of
  the sizes of that user's records in \<open>live\<close>. \<open>bb_remove_user_load\<close> leaves the record in
  the table; in a sequence with no removal the records charged are the records of the table,
  and the size of every user record is the sum of the sizes of the user's records there.
  For any state with a user table, \<open>bb_add_user_load\<close> adds the size of the record to
  \<open>used_space\<close> and to the size of its user (in 32 bits), and \<open>bb_remove_user_load\<close>
  subtracts it from both, each becoming 0 when it is smaller than the size removed.
\<close>

theorem bb_load_accounting:
  assumes "0 < hsz" and "used_space st0 = 0" and "charged calls [] = Some live"
  shows "(\<exists>st. bb_calls_exec hsz NICE_OFFSET calls (bb_alloc_cache st0) = Some st
           \<and> unat (used_space st) = users_total hsz st
           \<and> unat (used_space st) = total_size live
           \<and> (\<forall>u\<in>set (all_users hsz st). unat (u_size u) = total_size (allocs_of (u_user_id u) live))
           \<and> ((\<forall>c\<in>set calls. is_alloc_call c) \<longrightarrow>
                (\<forall>u\<in>set (all_users hsz st).
                   unat (u_size u) = total_size (allocs_of (u_user_id u) (all_allocs hsz st)))))
       \<and> (bb_uhash s \<noteq> None \<longrightarrow>
            (\<exists>s'. bb_add_user_load hsz a s = Some s'
               \<and> used_space s' = used_space s + a_size a
               \<and> user_load hsz s' (a_user_id a) = user_load hsz s (a_user_id a) + a_size a))
       \<and> (bb_uhash s \<noteq> None \<longrightarrow>
            (\<exists>s'. bb_remove_user_load hsz a s = Some s'
               \<and> used_space s' = (if a_size a \<le> used_space s then used_space s - a_size a else 0)
               \<and> user_load hsz s' (a_user_id a) =
                   (if a_size a \<le> user_load hsz s (a_user_id a)
                    then user_load hsz s (a_user_id a) - a_size a else 0)))"
proof -
  have init: "bb_inv hsz (bb_alloc_cache st0) []" using assms(2) by (rule bb_inv_init)
  from bb_calls_exec_inv[OF assms(1) init assms(3), of NICE_OFFSET] obtain st where
    run: "bb_calls_exec hsz NICE_OFFSET calls (bb_alloc_cache st0) = Some st"
    and inv: "bb_inv hsz st live" by blast
  from inv obtain tu where tu: "bb_uhash st = Some tu"
    and sizes: "\<forall>b<hsz. \<forall>u\<in>set (tu b). unat (u_size u) = total_size (allocs_of (u_user_id u) live)"
    and us: "unat (used_space st) = total_size live"
    and ut: "users_total hsz st = total_size live"
    by (auto simp add: bb_inv_def)
  have per_user: "\<forall>u\<in>set (all_users hsz st). unat (u_size u) = total_size (allocs_of (u_user_id u) live)"
    using tu sizes by (auto simp add: all_users_def)
  have only: "(\<forall>c\<in>set calls. is_alloc_call c) \<longrightarrow>
                (\<forall>u\<in>set (all_users hsz st).
                   unat (u_size u) = total_size (allocs_of (u_user_id u) (all_allocs hsz st)))"
  proof
    assume o: "\<forall>c\<in>set calls. is_alloc_call c"
    have "concat (map (\<lambda>i. []) [0..<hsz]) = ([] :: bb_alloc_t list)" by (induction hsz) simp_all
    then have m0: "\<forall>g :: bb_alloc_t \<Rightarrow> nat.
        sum_list (map g (all_allocs hsz (bb_alloc_cache st0))) = sum_list (map g [])"
      by (simp add: all_allocs_def bb_alloc_cache_def)
    from bb_calls_exec_alloc_only[OF assms(1) init m0 assms(3) o, of NICE_OFFSET] run
    have m: "\<forall>g :: bb_alloc_t \<Rightarrow> nat. sum_list (map g (all_allocs hsz st)) = sum_list (map g live)"
      by simp
    have "\<forall>uid. total_size (allocs_of uid (all_allocs hsz st)) = total_size (allocs_of uid live)"
      using m by (simp add: total_size_allocs_of_sum)
    then show "\<forall>u\<in>set (all_users hsz st).
                   unat (u_size u) = total_size (allocs_of (u_user_id u) (all_allocs hsz st))"
      using per_user by simp
  qed
  have add: "bb_uhash s \<noteq> None \<longrightarrow>
            (\<exists>s'. bb_add_user_load hsz a s = Some s'
               \<and> used_space s' = used_space s + a_size a
               \<and> user_load hsz s' (a_user_id a) = user_load hsz s (a_user_id a) + a_size a)"
  proof
    assume "bb_uhash s \<noteq> None"
    then obtain t where t: "bb_uhash s = Some t" by auto
    show "\<exists>s'. bb_add_user_load hsz a s = Some s'
               \<and> used_space s' = used_space s + a_size a
               \<and> user_load hsz s' (a_user_id a) = user_load hsz s (a_user_id a) + a_size a"
      using bb_add_user_load_chain[OF t, of hsz a] t
      by (simp add: user_load_chain chain_upd_load)
  qed
  have remove: "bb_uhash s \<noteq> None \<longrightarrow>
            (\<exists>s'. bb_remove_user_load hsz a s = Some s'
               \<and> used_space s' = (if a_size a \<le> used_space s then used_space s - a_size a else 0)
               \<and> user_load hsz s' (a_user_id a) =
                   (if a_size a \<le> user_load hsz s (a_user_id a)
                    then user_load hsz s (a_user_id a) - a_size a else 0))"
  proof
    assume "bb_uhash s \<noteq> None"
    then obtain t where t: "bb_uhash s = Some t" by auto
    show "\<exists>s'. bb_remove_user_load hsz a s = Some s'
               \<and> used_space s' = (if a_size a \<le> used_space s then used_space s - a_size a else 0)
               \<and> user_load hsz s' (a_user_id a) =
                   (if a_size a \<le> user_load hsz s (a_user_id a)
                    then user_load hsz s (a_user_id a) - a_size a else 0)"
      using bb_remove_user_load_chain[OF t, of hsz a] t
      by (simp add: user_load_chain chain_upd_load)
  qed
  have "\<exists>st. bb_calls_exec hsz NICE_OFFSET calls (bb_alloc_cache st0) = Some st
           \<and> unat (used_space st) = users_total hsz st
           \<and> unat (used_space st) = total_size live
           \<and> (\<forall>u\<in>set (all_users hsz st). unat (u_size u) = total_size (allocs_of (u_user_id u) live))
           \<and> ((\<forall>c\<in>set calls. is_alloc_call c) \<longrightarrow>
                (\<forall>u\<in>set (all_users hsz st).
                   unat (u_size u) = total_size (allocs_of (u_user_id u) (all_allocs hsz st))))"
    using run us ut per_user only by auto
  then show ?thesis using add remove by blast
qed


lemma concat_empty_buckets:
  "n \<le> k \<Longrightarrow> concat (map ((\<lambda>i. [])(k := xs)) [0..<n]) = []"
  by (induction n) simp_all

lemma concat_single_bucket:
  "k < n \<Longrightarrow> concat (map ((\<lambda>i. [])(k := xs)) [0..<n]) = xs"
proof (induction n)
  case 0
  then show ?case by simp
next
  case (Suc n)
  show ?case
  proof (cases "k = n")
    case True
    then show ?thesis using concat_empty_buckets[of n k xs] by simp
  next
    case False
    then have "k < n" using Suc.prems by simp
    then show ?thesis using Suc.IH False by simp
  qed
qed

theorem bb_load_accounting_witness:
  "charged [Alloc_job \<lparr>j_array_job_id = 0, j_array_task_id = 0, j_details = None, j_job_id = 42,
         j_priority = 100, j_user_id = 1000\<rparr> 5 0 0, Alloc_job \<lparr>j_array_job_id = 0, j_array_task_id = 0, j_details = None, j_job_id = 43,
         j_priority = 100, j_user_id = 2000\<rparr> 3 0 0, Remove_load (new_job_rec \<lparr>j_array_job_id = 0, j_array_task_id = 0, j_details = None, j_job_id = 42,
         j_priority = 100, j_user_id = 1000\<rparr> 5 0 0)] []
     = Some [new_job_rec \<lparr>j_array_job_id = 0, j_array_task_id = 0, j_details = None, j_job_id = 43,
         j_priority = 100, j_user_id = 2000\<rparr> 3 0 0]
   \<and> (\<exists>st. bb_calls_exec 100 10000
              [Alloc_job \<lparr>j_array_job_id = 0, j_array_task_id = 0, j_details = None, j_job_id = 42,
         j_priority = 100, j_user_id = 1000\<rparr> 5 0 0, Alloc_job \<lparr>j_array_job_id = 0, j_array_task_id = 0, j_details = None, j_job_id = 43,
         j_priority = 100, j_user_id = 2000\<rparr> 3 0 0, Remove_load (new_job_rec \<lparr>j_array_job_id = 0, j_array_task_id = 0, j_details = None, j_job_id = 42,
         j_priority = 100, j_user_id = 1000\<rparr> 5 0 0)]
              (bb_alloc_cache \<lparr>bb_config = \<lparr>allow_users = None, allow_users_str = None, debug_flag = False, deny_users = None,
          deny_users_str = None, get_sys_state = None, granularity = 1, gres_cnt = 0,
          gres_ptr = None, job_size_limit = 0, stage_in_timeout = 0, stage_out_timeout = 0,
          prio_boost_alloc = 0, prio_boost_use = 0, private_data = 0, start_stage_in = None,
          start_stage_out = None, stop_stage_in = None, stop_stage_out = None,
          user_size_limit = 0\<rparr>,
        bb_hash = None, bb_uhash = None, next_end_time = 0, total_space = 0, used_space = 0\<rparr>) = Some st
          \<and> unat (used_space st) = users_total 100 st
          \<and> unat (used_space st) = 3)"
proof -
  have h1: "(0 :: nat) < 100" by simp
  have h2: "used_space \<lparr>bb_config = \<lparr>allow_users = None, allow_users_str = None, debug_flag = False, deny_users = None,
          deny_users_str = None, get_sys_state = None, granularity = 1, gres_cnt = 0,
          gres_ptr = None, job_size_limit = 0, stage_in_timeout = 0, stage_out_timeout = 0,
          prio_boost_alloc = 0, prio_boost_use = 0, private_data = 0, start_stage_in = None,
          start_stage_out = None, stop_stage_in = None, stop_stage_out = None,
          user_size_limit = 0\<rparr>,
        bb_hash = None, bb_uhash = None, next_end_time = 0, total_space = 0, used_space = 0\<rparr> = 0" by simp
  have h3: "charged [Alloc_job \<lparr>j_array_job_id = 0, j_array_task_id = 0, j_details = None, j_job_id = 42,
         j_priority = 100, j_user_id = 1000\<rparr> 5 0 0, Alloc_job \<lparr>j_array_job_id = 0, j_array_task_id = 0, j_details = None, j_job_id = 43,
         j_priority = 100, j_user_id = 2000\<rparr> 3 0 0, Remove_load (new_job_rec \<lparr>j_array_job_id = 0, j_array_task_id = 0, j_details = None, j_job_id = 42,
         j_priority = 100, j_user_id = 1000\<rparr> 5 0 0)] []
     = Some [new_job_rec \<lparr>j_array_job_id = 0, j_array_task_id = 0, j_details = None, j_job_id = 43,
         j_priority = 100, j_user_id = 2000\<rparr> 3 0 0]"
    by (simp add: total_size_def new_job_rec_def)
  have t: "total_size [new_job_rec \<lparr>j_array_job_id = 0, j_array_task_id = 0, j_details = None, j_job_id = 43,
         j_priority = 100, j_user_id = 2000\<rparr> 3 0 0] = 3"
    by (simp add: total_size_def new_job_rec_def)
  from bb_load_accounting[OF h1 h2 h3, of 10000] obtain st where
    r: "bb_calls_exec 100 10000
              [Alloc_job \<lparr>j_array_job_id = 0, j_array_task_id = 0, j_details = None, j_job_id = 42,
         j_priority = 100, j_user_id = 1000\<rparr> 5 0 0, Alloc_job \<lparr>j_array_job_id = 0, j_array_task_id = 0, j_details = None, j_job_id = 43,
         j_priority = 100, j_user_id = 2000\<rparr> 3 0 0, Remove_load (new_job_rec \<lparr>j_array_job_id = 0, j_array_task_id = 0, j_details = None, j_job_id = 42,
         j_priority = 100, j_user_id = 1000\<rparr> 5 0 0)]
              (bb_alloc_cache \<lparr>bb_config = \<lparr>allow_users = None, allow_users_str = None, debug_flag = False, deny_users = None,
          deny_users_str = None, get_sys_state = None, granularity = 1, gres_cnt = 0,
          gres_ptr = None, job_size_limit = 0, stage_in_timeout = 0, stage_out_timeout = 0,
          prio_boost_alloc = 0, prio_boost_use = 0, private_data = 0, start_stage_in = None,
          start_stage_out = None, stop_stage_in = None, stop_stage_out = None,
          user_size_limit = 0\<rparr>,
        bb_hash = None, bb_uhash = None, next_end_time = 0, total_space = 0, used_space = 0\<rparr>) = Some st"
    and u: "unat (used_space st) = users_total 100 st"
    and v: "unat (used_space st) = total_size [new_job_rec \<lparr>j_array_job_id = 0, j_array_task_id = 0, j_details = None, j_job_id = 43,
         j_priority = 100, j_user_id = 2000\<rparr> 3 0 0]"
    by blast
  have "unat (used_space st) = 3" using v t by (simp only:)
  with r u have "\<exists>st. bb_calls_exec 100 10000
              [Alloc_job \<lparr>j_array_job_id = 0, j_array_task_id = 0, j_details = None, j_job_id = 42,
         j_priority = 100, j_user_id = 1000\<rparr> 5 0 0, Alloc_job \<lparr>j_array_job_id = 0, j_array_task_id = 0, j_details = None, j_job_id = 43,
         j_priority = 100, j_user_id = 2000\<rparr> 3 0 0, Remove_load (new_job_rec \<lparr>j_array_job_id = 0, j_array_task_id = 0, j_details = None, j_job_id = 42,
         j_priority = 100, j_user_id = 1000\<rparr> 5 0 0)]
              (bb_alloc_cache \<lparr>bb_config = \<lparr>allow_users = None, allow_users_str = None, debug_flag = False, deny_users = None,
          deny_users_str = None, get_sys_state = None, granularity = 1, gres_cnt = 0,
          gres_ptr = None, job_size_limit = 0, stage_in_timeout = 0, stage_out_timeout = 0,
          prio_boost_alloc = 0, prio_boost_use = 0, private_data = 0, start_stage_in = None,
          start_stage_out = None, stop_stage_in = None, stop_stage_out = None,
          user_size_limit = 0\<rparr>,
        bb_hash = None, bb_uhash = None, next_end_time = 0, total_space = 0, used_space = 0\<rparr>) = Some st
          \<and> unat (used_space st) = users_total 100 st
          \<and> unat (used_space st) = 3"
    by blast
  with h3 show ?thesis by (rule conjI)
qed

text \<open>
  One job of user 1000 with a buffer of size 5 is allocated and its load removed: the user's
  record has size 0, and the user's allocation record, of size 5, is still in the table.
  And with buffers of size 5 for user 1000 and of size 3 for user 2000 allocated, the load of
  a record of user 1000 of size 7 is removed: \<open>used_space\<close> is 1, and the sizes of the two
  user records are 3 and 0. And with buffers of size \<open>2\<^sup>3\<^sup>2 - 1\<close> for user 1000 and of size
  2 for user 2000 allocated, \<open>used_space\<close> has wrapped to 1, and when the load of the first
  is removed \<open>used_space\<close> is 0 and the sizes of the two user records are 2 and 0.
\<close>

theorem bb_load_accounting_counterexample:
  "map_option (all_users 100)
     (bb_calls_exec 100 10000 [Alloc_job \<lparr>j_array_job_id = 0, j_array_task_id = 0, j_details = None, j_job_id = 42,
         j_priority = 100, j_user_id = 1000\<rparr> 5 0 0, Remove_load (new_job_rec \<lparr>j_array_job_id = 0, j_array_task_id = 0, j_details = None, j_job_id = 42,
         j_priority = 100, j_user_id = 1000\<rparr> 5 0 0)]
        (bb_alloc_cache \<lparr>bb_config = \<lparr>allow_users = None, allow_users_str = None, debug_flag = False, deny_users = None,
          deny_users_str = None, get_sys_state = None, granularity = 1, gres_cnt = 0,
          gres_ptr = None, job_size_limit = 0, stage_in_timeout = 0, stage_out_timeout = 0,
          prio_boost_alloc = 0, prio_boost_use = 0, private_data = 0, start_stage_in = None,
          start_stage_out = None, stop_stage_in = None, stop_stage_out = None,
          user_size_limit = 0\<rparr>,
        bb_hash = None, bb_uhash = None, next_end_time = 0, total_space = 0, used_space = 0\<rparr>))
     = Some [\<lparr>u_size = 0, u_user_id = 1000\<rparr>]
   \<and> map_option (all_allocs 100)
     (bb_calls_exec 100 10000 [Alloc_job \<lparr>j_array_job_id = 0, j_array_task_id = 0, j_details = None, j_job_id = 42,
         j_priority = 100, j_user_id = 1000\<rparr> 5 0 0, Remove_load (new_job_rec \<lparr>j_array_job_id = 0, j_array_task_id = 0, j_details = None, j_job_id = 42,
         j_priority = 100, j_user_id = 1000\<rparr> 5 0 0)]
        (bb_alloc_cache \<lparr>bb_config = \<lparr>allow_users = None, allow_users_str = None, debug_flag = False, deny_users = None,
          deny_users_str = None, get_sys_state = None, granularity = 1, gres_cnt = 0,
          gres_ptr = None, job_size_limit = 0, stage_in_timeout = 0, stage_out_timeout = 0,
          prio_boost_alloc = 0, prio_boost_use = 0, private_data = 0, start_stage_in = None,
          start_stage_out = None, stop_stage_in = None, stop_stage_out = None,
          user_size_limit = 0\<rparr>,
        bb_hash = None, bb_uhash = None, next_end_time = 0, total_space = 0, used_space = 0\<rparr>))
     = Some [new_job_rec \<lparr>j_array_job_id = 0, j_array_task_id = 0, j_details = None, j_job_id = 42,
         j_priority = 100, j_user_id = 1000\<rparr> 5 0 0]
   \<and> a_user_id (new_job_rec \<lparr>j_array_job_id = 0, j_array_task_id = 0, j_details = None, j_job_id = 42,
         j_priority = 100, j_user_id = 1000\<rparr> 5 0 0) = 1000
   \<and> a_size (new_job_rec \<lparr>j_array_job_id = 0, j_array_task_id = 0, j_details = None, j_job_id = 42,
         j_priority = 100, j_user_id = 1000\<rparr> 5 0 0) = 5
   \<and> map_option used_space
     (bb_calls_exec 100 10000
        [Alloc_job \<lparr>j_array_job_id = 0, j_array_task_id = 0, j_details = None, j_job_id = 42,
         j_priority = 100, j_user_id = 1000\<rparr> 5 0 0, Alloc_job \<lparr>j_array_job_id = 0, j_array_task_id = 0, j_details = None, j_job_id = 43,
         j_priority = 100, j_user_id = 2000\<rparr> 3 0 0, Remove_load (new_job_rec \<lparr>j_array_job_id = 0, j_array_task_id = 0, j_details = None, j_job_id = 42,
         j_priority = 100, j_user_id = 1000\<rparr> 7 0 0)]
        (bb_alloc_cache \<lparr>bb_config = \<lparr>allow_users = None, allow_users_str = None, debug_flag = False, deny_users = None,
          deny_users_str = None, get_sys_state = None, granularity = 1, gres_cnt = 0,
          gres_ptr = None, job_size_limit = 0, stage_in_timeout = 0, stage_out_timeout = 0,
          prio_boost_alloc = 0, prio_boost_use = 0, private_data = 0, start_stage_in = None,
          start_stage_out = None, stop_stage_in = None, stop_stage_out = None,
          user_size_limit = 0\<rparr>,
        bb_hash = None, bb_uhash = None, next_end_time = 0, total_space = 0, used_space = 0\<rparr>))
     = Some 1
   \<and> map_option (all_users 100)
     (bb_calls_exec 100 10000
        [Alloc_job \<lparr>j_array_job_id = 0, j_array_task_id = 0, j_details = None, j_job_id = 42,
         j_priority = 100, j_user_id = 1000\<rparr> 5 0 0, Alloc_job \<lparr>j_array_job_id = 0, j_array_task_id = 0, j_details = None, j_job_id = 43,
         j_priority = 100, j_user_id = 2000\<rparr> 3 0 0, Remove_load (new_job_rec \<lparr>j_array_job_id = 0, j_array_task_id = 0, j_details = None, j_job_id = 42,
         j_priority = 100, j_user_id = 1000\<rparr> 7 0 0)]
        (bb_alloc_cache \<lparr>bb_config = \<lparr>allow_users = None, allow_users_str = None, debug_flag = False, deny_users = None,
          deny_users_str = None, get_sys_state = None, granularity = 1, gres_cnt = 0,
          gres_ptr = None, job_size_limit = 0, stage_in_timeout = 0, stage_out_timeout = 0,
          prio_boost_alloc = 0, prio_boost_use = 0, private_data = 0, start_stage_in = None,
          start_stage_out = None, stop_stage_in = None, stop_stage_out = None,
          user_size_limit = 0\<rparr>,
        bb_hash = None, bb_uhash = None, next_end_time = 0, total_space = 0, used_space = 0\<rparr>))
     = Some [\<lparr>u_size = 3, u_user_id = 2000\<rparr>, \<lparr>u_size = 0, u_user_id = 1000\<rparr>]
   \<and> map_option used_space
     (bb_calls_exec 100 10000
        [Alloc_job \<lparr>j_array_job_id = 0, j_array_task_id = 0, j_details = None, j_job_id = 42,
         j_priority = 100, j_user_id = 1000\<rparr> 4294967295 0 0, Alloc_job \<lparr>j_array_job_id = 0, j_array_task_id = 0, j_details = None, j_job_id = 43,
         j_priority = 100, j_user_id = 2000\<rparr> 2 0 0,
         Remove_load (new_job_rec \<lparr>j_array_job_id = 0, j_array_task_id = 0, j_details = None, j_job_id = 42,
         j_priority = 100, j_user_id = 1000\<rparr> 4294967295 0 0)]
        (bb_alloc_cache \<lparr>bb_config = \<lparr>allow_users = None, allow_users_str = None, debug_flag = False, deny_users = None,
          deny_users_str = None, get_sys_state = None, granularity = 1, gres_cnt = 0,
          gres_ptr = None, job_size_limit = 0, stage_in_timeout = 0, stage_out_timeout = 0,
          prio_boost_alloc = 0, prio_boost_use = 0, private_data = 0, start_stage_in = None,
          start_stage_out = None, stop_stage_in = None, stop_stage_out = None,
          user_size_limit = 0\<rparr>,
        bb_hash = None, bb_uhash = None, next_end_time = 0, total_space = 0, used_space = 0\<rparr>))
     = Some 0
   \<and> map_option (all_users 100)
     (bb_calls_exec 100 10000
        [Alloc_job \<lparr>j_array_job_id = 0, j_array_task_id = 0, j_details = None, j_job_id = 42,
         j_priority = 100, j_user_id = 1000\<rparr> 4294967295 0 0, Alloc_job \<lparr>j_array_job_id = 0, j_array_task_id = 0, j_details = None, j_job_id = 43,
         j_priority = 100, j_user_id = 2000\<rparr> 2 0 0,
         Remove_load (new_job_rec \<lparr>j_array_job_id = 0, j_array_task_id = 0, j_details = None, j_job_id = 42,
         j_priority = 100, j_user_id = 1000\<rparr> 4294967295 0 0)]
        (bb_alloc_cache \<lparr>bb_config = \<lparr>allow_users = None, allow_users_str = None, debug_flag = False, deny_users = None,
          deny_users_str = None, get_sys_state = None, granularity = 1, gres_cnt = 0,
          gres_ptr = None, job_size_limit = 0, stage_in_timeout = 0, stage_out_timeout = 0,
          prio_boost_alloc = 0, prio_boost_use = 0, private_data = 0, start_stage_in = None,
          start_stage_out = None, stop_stage_in = None, stop_stage_out = None,
          user_size_limit = 0\<rparr>,
        bb_hash = None, bb_uhash = None, next_end_time = 0, total_space = 0, used_space = 0\<rparr>))
     = Some [\<lparr>u_size = 2, u_user_id = 2000\<rparr>, \<lparr>u_size = 0, u_user_id = 1000\<rparr>]"
  by (simp add: bb_call_exec_def bb_alloc_job_def bb_alloc_job_rec_def bb_add_user_load_def
      bb_remove_user_load_def bb_find_user_rec_def bb_alloc_cache_def boost_priority_def
      new_job_rec_def all_users_def all_allocs_def concat_single_bucket Let_def)

end
